theory Spec2Isabelle
  imports Main "HOL-Library.Char_ord" "HOL-Library.List_Lexorder"
begin

section \<open>Python strings\<close>

text \<open>
  Strings are lists of characters (code points below 256).  String comparison is
  Python's: lexicographic on code points, a proper prefix being smaller; this is the
  order \<^theory_text>\<open>HOL-Library.List_Lexorder\<close> puts on \<^typ>\<open>char list\<close>.
\<close>

text \<open>\<^verbatim>\<open>s.startswith(p)\<close>\<close>

fun starts_with :: "string \<Rightarrow> string \<Rightarrow> bool" where
  "starts_with [] s = True"
| "starts_with (p # ps) [] = False"
| "starts_with (p # ps) (c # cs) = (p = c \<and> starts_with ps cs)"

text \<open>\<^verbatim>\<open>sub in s\<close> on strings: \<open>sub\<close> occurs somewhere in \<open>s\<close>.\<close>

fun str_in :: "string \<Rightarrow> string \<Rightarrow> bool" where
  "str_in sub [] = (sub = [])"
| "str_in sub (c # cs) = (starts_with sub (c # cs) \<or> str_in sub cs)"

text \<open>
  \<^verbatim>\<open>s.replace(old, new)\<close>: every occurrence of \<open>old\<close>, found from left to right
  without overlap, is replaced.  For an empty \<open>old\<close> Python puts \<open>new\<close> before every
  character and at the end.
\<close>

function str_replace :: "string \<Rightarrow> string \<Rightarrow> string \<Rightarrow> string" where
  "str_replace old new [] = (if old = [] then new else [])"
| "str_replace old new (c # cs) =
     (if old = [] then new @ c # str_replace old new cs
      else if starts_with old (c # cs)
        then new @ str_replace old new (drop (length old) (c # cs))
        else c # str_replace old new cs)"
  by pat_completeness auto
termination
  by (relation "measure (\<lambda>(old, new, s). length s)") (auto simp: neq_Nil_conv)

text \<open>
  \<^verbatim>\<open>s.lower()\<close> on code points below 256: the letters A-Z, and the Latin-1 capitals
  192-222 apart from the multiplication sign 215, move up by 32.
\<close>

definition lower_char :: "char \<Rightarrow> char" where
  "lower_char c =
     (let n = (of_char c :: nat)
      in if 65 \<le> n \<and> n \<le> 90 then char_of (n + 32)
         else if 192 \<le> n \<and> n \<le> 214 then char_of (n + 32)
         else if 216 \<le> n \<and> n \<le> 222 then char_of (n + 32)
         else c)"

definition str_lower :: "string \<Rightarrow> string" where
  "str_lower s = map lower_char s"

section \<open>The naming helpers\<close>

definition clean_ssl :: "string \<Rightarrow> string" where
  "clean_ssl sslv = str_lower (str_replace ''_VERSION'' '''' sslv)"

definition clean_compression :: "string \<Rightarrow> string" where
  "clean_compression compression = str_lower (str_replace ''USE_'' '''' compression)"

definition get_asan_flags :: "string \<Rightarrow> string list" where
  \<open>get_asan_flags cc =
     [''USE_OBSOLETE_LINKER=1'',
      ''DEBUG_CFLAGS="-g -fsanitize=address"'',
      ''LDFLAGS="-fsanitize=address"'',
      ''CPU_CFLAGS.generic="-O1"'']\<close>

section \<open>Exceptions and Python values\<close>

datatype exn =
    URLError
  | HTTPError nat
  | ReadError
  | UnicodeDecodeError
  | JSONDecodeError
  | TypeError
  | KeyError
  | IndexError
  | UnboundLocalError
  | OSError
  | SystemExit nat

text \<open>
  The values \<^verbatim>\<open>json.loads\<close> builds and \<^verbatim>\<open>json.dumps\<close> prints.  \<open>JObj\<close> holds the
  items of a dict in insertion order (its keys are distinct); \<open>JNum\<close> stands for a
  number (the program treats every number alike).
\<close>

datatype json =
    JNull
  | JBool bool
  | JNum int
  | JStr string
  | JArr "json list"
  | JObj "(string \<times> json) list"

text \<open>\<^verbatim>\<open>for tag in tags\<close>: the elements the loop visits, or the TypeError of a value
  that is not iterable.  A dict yields its keys, a string its characters.\<close>

fun py_iter :: "json \<Rightarrow> exn + json list" where
  "py_iter (JArr xs) = Inr xs"
| "py_iter (JObj kvs) = Inr (map (\<lambda>kv. JStr (fst kv)) kvs)"
| "py_iter (JStr s) = Inr (map (\<lambda>c. JStr [c]) s)"
| "py_iter _ = Inl TypeError"

text \<open>\<^verbatim>\<open>tag["name"]\<close>: only a dict can be indexed by a string.\<close>

fun py_getitem :: "json \<Rightarrow> string \<Rightarrow> exn + json" where
  "py_getitem (JObj kvs) k = (case map_of kvs k of None \<Rightarrow> Inl KeyError | Some v \<Rightarrow> Inr v)"
| "py_getitem _ k = Inl TypeError"

text \<open>\<^verbatim>\<open>sub in name\<close>: substring test on a string, membership on a list, key membership
  on a dict, TypeError on anything else.\<close>

fun py_contains :: "string \<Rightarrow> json \<Rightarrow> exn + bool" where
  "py_contains sub (JStr s) = Inr (str_in sub s)"
| "py_contains sub (JArr xs) = Inr (JStr sub \<in> set xs)"
| "py_contains sub (JObj kvs) = Inr (sub \<in> set (map fst kvs))"
| "py_contains sub _ = Inl TypeError"

text \<open>\<^verbatim>\<open>name > latest_tag\<close> where \<open>latest_tag\<close> is a string: only a string compares.\<close>

fun py_gt_str :: "json \<Rightarrow> string \<Rightarrow> exn + bool" where
  "py_gt_str (JStr s) t = Inr (t < s)"
| "py_gt_str _ t = Inl TypeError"

section \<open>The network\<close>

text \<open>
  What \<^verbatim>\<open>urllib.request.urlopen\<close> meets: no connection at all, or a final response
  with a status code and a body.  As urllib does, a status outside 200..299 is raised
  as an HTTPError.
\<close>

datatype 'b http_outcome = NoConnection | Response nat 'b

fun urlopen :: "'b http_outcome \<Rightarrow> exn + 'b" where
  "urlopen NoConnection = Inl URLError"
| "urlopen (Response code body) =
     (if 200 \<le> code \<and> code < 300 then Inr body else Inl (HTTPError code))"

text \<open>
  The body of the tags endpoint, as \<^verbatim>\<open>json.loads(openssl_tags.read().decode("utf-8"))\<close>
  sees it: reading may fail, the bytes may not be UTF-8, the text may not be JSON.
\<close>

datatype tags_body = TagsReadFails | TagsNotUtf8 | TagsNotJson | TagsJson json

fun read_json :: "tags_body \<Rightarrow> exn + json" where
  "read_json TagsReadFails = Inl ReadError"
| "read_json TagsNotUtf8 = Inl UnicodeDecodeError"
| "read_json TagsNotJson = Inl JSONDecodeError"
| "read_json (TagsJson j) = Inr j"

text \<open>
  The body of the directory listing, as \<^verbatim>\<open>readlines()\<close> and \<^verbatim>\<open>line.decode("utf-8")\<close>
  see it: reading may fail; each line decodes to a string or (\<open>None\<close>) is not UTF-8.
\<close>

datatype listing_body = ListingReadFails | ListingLines "string option list"

fun readlines :: "listing_body \<Rightarrow> exn + string option list" where
  "readlines ListingReadFails = Inl ReadError"
| "readlines (ListingLines ls) = Inr ls"

record request =
  url :: string
  headers :: "(string \<times> string) list"

record env =
  GITHUB_TOKEN :: "string option"
  GITHUB_OUTPUT :: "string option"
  output_writable :: bool
  openssl_net :: "tags_body http_outcome list"
  libressl_net :: "listing_body http_outcome list"

text \<open>
  \<open>openssl_net\<close> and \<open>libressl_net\<close> are what the two endpoints answer to the first,
  second, ... request of the run; past the end of the list there is no connection.
  \<open>output_writable\<close> says whether the file named by GITHUB\_OUTPUT can be opened for
  appending.
\<close>

definition nth_outcome :: "'b http_outcome list \<Rightarrow> nat \<Rightarrow> 'b http_outcome" where
  "nth_outcome rs n = (if n < length rs then rs ! n else NoConnection)"

section \<open>The program state\<close>

record entry =
  name :: string
  os :: string
  TARGET :: string
  CC :: string
  ssl :: "string option"
  FLAGS :: "string list"

text \<open>
  \<open>network_log\<close> lists the requests sent, oldest first, each with the argument of the
  resolver call that sent it.  A cache holds the (argument, result) pairs of an
  \<^verbatim>\<open>lru_cache\<close>, most recently used first.  \<open>output_file\<close> is the text appended to the
  GITHUB\_OUTPUT file.  The traceback Python prints for an uncaught exception is not
  part of \<open>stderr\<close> here.
\<close>

record pstate =
  stdout :: string
  stderr :: string
  output_file :: string
  matrix :: "entry list"
  openssl_cache :: "(string \<times> string) list"
  libressl_cache :: "(string \<times> string) list"
  network_log :: "(string \<times> request) list"

definition initial :: pstate where
  "initial = \<lparr>stdout = [], stderr = [], output_file = [], matrix = [],
     openssl_cache = [], libressl_cache = [], network_log = []\<rparr>"

definition newline :: char where
  "newline = CHR 0x0A"

definition print_stdout :: "string \<Rightarrow> pstate \<Rightarrow> pstate" where
  "print_stdout txt s = s\<lparr>stdout := stdout s @ txt @ [newline]\<rparr>"

definition print_stderr :: "string \<Rightarrow> pstate \<Rightarrow> pstate" where
  "print_stderr txt s = s\<lparr>stderr := stderr s @ txt @ [newline]\<rparr>"

definition matrix_append :: "entry \<Rightarrow> pstate \<Rightarrow> pstate" where
  "matrix_append en s = s\<lparr>matrix := matrix s @ [en]\<rparr>"

subsection \<open>functools.lru\_cache\<close>

text \<open>A lookup that hits returns the stored result and makes the pair the most recently
  used one.  Storing puts the new pair first and, beyond \<open>maxsize\<close> pairs, drops the
  least recently used one.\<close>

definition lru_lookup :: "string \<Rightarrow> (string \<times> string) list \<Rightarrow> (string \<times> (string \<times> string) list) option" where
  "lru_lookup k c =
     (case map_of c k of
        None \<Rightarrow> None
      | Some v \<Rightarrow> Some (v, (k, v) # filter (\<lambda>p. fst p \<noteq> k) c))"

definition lru_store :: "nat \<Rightarrow> string \<Rightarrow> string \<Rightarrow> (string \<times> string) list \<Rightarrow> (string \<times> string) list" where
  "lru_store maxsize k v c = take maxsize ((k, v) # c)"

section \<open>The version resolvers\<close>

subsection \<open>determine\_latest\_openssl\<close>

definition openssl_url :: string where
  "openssl_url = ''https://api.github.com/repos/openssl/openssl/tags''"

definition openssl_request :: "env \<Rightarrow> request" where
  "openssl_request e =
     \<lparr>url = openssl_url,
      headers = (case GITHUB_TOKEN e of
                   None \<Rightarrow> []
                 | Some tok \<Rightarrow> [(''Authorization'', ''token '' @ tok)])\<rparr>"

text \<open>The loop over the tags, started with \<open>latest_tag = ""\<close>.\<close>

fun scan_tags :: "json list \<Rightarrow> string \<Rightarrow> exn + string" where
  "scan_tags [] latest_tag = Inr latest_tag"
| "scan_tags (tag # tags) latest_tag =
     (case py_getitem tag ''name'' of
        Inl x \<Rightarrow> Inl x
      | Inr nm \<Rightarrow>
          (case py_contains ''openssl-'' nm of
             Inl x \<Rightarrow> Inl x
           | Inr False \<Rightarrow> scan_tags tags latest_tag
           | Inr True \<Rightarrow>
               (case py_gt_str nm latest_tag of
                  Inl x \<Rightarrow> Inl x
                | Inr False \<Rightarrow> scan_tags tags latest_tag
                | Inr True \<Rightarrow>
                    (case nm of JStr n \<Rightarrow> scan_tags tags n | _ \<Rightarrow> Inl TypeError))))"

text \<open>
  The function body once the request is built, as a function of what the endpoint
  answers: the \<^verbatim>\<open>try\<close> covers \<^verbatim>\<open>urlopen\<close> alone; reading, decoding, parsing and the
  loop run after it, outside any handler.
\<close>

definition openssl_from_outcome :: "tags_body http_outcome \<Rightarrow> exn + string" where
  "openssl_from_outcome out =
     (case urlopen out of
        Inl x \<Rightarrow> Inr ''OPENSSL_VERSION=failed_to_detect''
      | Inr openssl_tags \<Rightarrow>
          (case read_json openssl_tags of
             Inl x \<Rightarrow> Inl x
           | Inr tags \<Rightarrow>
               (case py_iter tags of
                  Inl x \<Rightarrow> Inl x
                | Inr ts \<Rightarrow>
                    (case scan_tags ts [] of
                       Inl x \<Rightarrow> Inl x
                     | Inr latest_tag \<Rightarrow> Inr (''OPENSSL_VERSION='' @ drop 8 latest_tag)))))"

text \<open>The number of requests already sent to a URL, and the sending of one more; the
  answer to a request is picked by that number.\<close>

definition sent_to :: "string \<Rightarrow> pstate \<Rightarrow> nat" where
  "sent_to u s = length (filter (\<lambda>p. url (snd p) = u) (network_log s))"

definition send :: "string \<Rightarrow> request \<Rightarrow> pstate \<Rightarrow> pstate" where
  "send arg req s = s\<lparr>network_log := network_log s @ [(arg, req)]\<rparr>"

definition determine_latest_openssl_body :: "env \<Rightarrow> string \<Rightarrow> pstate \<Rightarrow> (exn + string) \<times> pstate" where
  "determine_latest_openssl_body e sslv s =
     (openssl_from_outcome (nth_outcome (openssl_net e) (sent_to openssl_url s)),
      send sslv (openssl_request e) s)"

text \<open>The function as decorated with \<^verbatim>\<open>@functools.lru_cache(5)\<close>: a result is stored
  when the body returns, not when it raises.\<close>

definition determine_latest_openssl :: "env \<Rightarrow> string \<Rightarrow> pstate \<Rightarrow> (exn + string) \<times> pstate" where
  "determine_latest_openssl e sslv s =
     (case lru_lookup sslv (openssl_cache s) of
        Some (v, c) \<Rightarrow> (Inr v, s\<lparr>openssl_cache := c\<rparr>)
      | None \<Rightarrow>
          (case determine_latest_openssl_body e sslv s of
             (Inl x, s') \<Rightarrow> (Inl x, s')
           | (Inr v, s') \<Rightarrow>
               (Inr v, s'\<lparr>openssl_cache := lru_store 5 sslv v (openssl_cache s')\<rparr>)))"

subsection \<open>determine\_latest\_libressl\<close>

definition libressl_url :: string where
  "libressl_url = ''https://cdn.openbsd.org/pub/OpenBSD/LibreSSL/''"

text \<open>
  The regular expression \<^verbatim>\<open>libressl-|.tar.gz.asc\<close>: two alternatives, each a sequence
  of single-character patterns, where \<open>None\<close> is the dot (any character but a newline).
\<close>

fun matches_seq :: "char option list \<Rightarrow> string \<Rightarrow> bool" where
  "matches_seq [] s = True"
| "matches_seq (p # ps) [] = False"
| "matches_seq (None # ps) (c # cs) = (c \<noteq> newline \<and> matches_seq ps cs)"
| "matches_seq (Some x # ps) (c # cs) = (x = c \<and> matches_seq ps cs)"

definition alt_libressl :: "char option list" where
  "alt_libressl = map Some ''libressl-''"

definition alt_asc :: "char option list" where
  "alt_asc = [None] @ map Some ''tar'' @ [None] @ map Some ''gz'' @ [None] @ map Some ''asc''"

text \<open>The length of the match at the start of \<open>s\<close>, the first alternative tried first.\<close>

definition match_here :: "string \<Rightarrow> nat option" where
  "match_here s =
     (if matches_seq alt_libressl s then Some 9
      else if matches_seq alt_asc s then Some 11
      else None)"

text \<open>\<^verbatim>\<open>re.split\<close> with this pattern: the pieces between the matches, found from left
  to right; \<open>cur\<close> is the piece being read, reversed.  A match of length \<open>n\<close> at
  \<open>c # cs\<close> takes \<open>c\<close> and the next \<open>n - 1\<close> characters.\<close>

function re_split_from :: "string \<Rightarrow> string \<Rightarrow> string list" where
  "re_split_from cur [] = [rev cur]"
| "re_split_from cur (c # cs) =
     (case match_here (c # cs) of
        Some n \<Rightarrow> rev cur # re_split_from [] (drop (n - 1) cs)
      | None \<Rightarrow> re_split_from (c # cur) cs)"
  by pat_completeness auto
termination
  by (relation "measure (\<lambda>(cur, s). length s)") auto

definition re_split :: "string \<Rightarrow> string list" where
  "re_split s = re_split_from [] s"

text \<open>The loop over the lines; \<open>l\<close> is \<open>None\<close> while the variable is unbound.\<close>

fun scan_lines :: "string option list \<Rightarrow> string option \<Rightarrow> exn + string option" where
  "scan_lines [] l = Inr l"
| "scan_lines (line # lines) l =
     (case line of
        None \<Rightarrow> Inl UnicodeDecodeError
      | Some decoded_line \<Rightarrow>
          (if str_in ''libressl-'' decoded_line \<and> str_in ''.tar.gz.asc'' decoded_line
           then (case re_split decoded_line of
                   p0 # p1 # ps \<Rightarrow> scan_lines lines (Some p1)
                 | _ \<Rightarrow> Inl IndexError)
           else scan_lines lines l))"

definition libressl_from_outcome :: "listing_body http_outcome \<Rightarrow> exn + string" where
  "libressl_from_outcome out =
     (case urlopen out of
        Inl x \<Rightarrow> Inr ''LIBRESSL_VERSION=failed_to_detect''
      | Inr libressl_download_list \<Rightarrow>
          (case readlines libressl_download_list of
             Inl x \<Rightarrow> Inl x
           | Inr ls \<Rightarrow>
               (case scan_lines ls None of
                  Inl x \<Rightarrow> Inl x
                | Inr None \<Rightarrow> Inl UnboundLocalError
                | Inr (Some l) \<Rightarrow> Inr (''LIBRESSL_VERSION='' @ l))))"

definition libressl_request :: request where
  "libressl_request = \<lparr>url = libressl_url, headers = []\<rparr>"

definition determine_latest_libressl_body :: "env \<Rightarrow> string \<Rightarrow> pstate \<Rightarrow> (exn + string) \<times> pstate" where
  "determine_latest_libressl_body e sslv s =
     (libressl_from_outcome (nth_outcome (libressl_net e) (sent_to libressl_url s)),
      send sslv libressl_request s)"

definition determine_latest_libressl :: "env \<Rightarrow> string \<Rightarrow> pstate \<Rightarrow> (exn + string) \<times> pstate" where
  "determine_latest_libressl e sslv s =
     (case lru_lookup sslv (libressl_cache s) of
        Some (v, c) \<Rightarrow> (Inr v, s\<lparr>libressl_cache := c\<rparr>)
      | None \<Rightarrow>
          (case determine_latest_libressl_body e sslv s of
             (Inl x, s') \<Rightarrow> (Inl x, s')
           | (Inr v, s') \<Rightarrow>
               (Inr v, s'\<lparr>libressl_cache := lru_store 5 sslv v (libressl_cache s')\<rparr>)))"

section \<open>json.dumps\<close>

definition hex_digit :: "nat \<Rightarrow> char" where
  "hex_digit n = ''0123456789abcdef'' ! (n mod 16)"

text \<open>The escapes of the default encoder (\<open>ensure_ascii\<close>), for code points below 256.\<close>

definition escape_char :: "char \<Rightarrow> string" where
  "escape_char c =
     (let n = (of_char c :: nat)
      in if n = 0x22 then [CHR 0x5C, CHR 0x22]
         else if n = 0x5C then [CHR 0x5C, CHR 0x5C]
         else if n = 0x0A then [CHR 0x5C, CHR ''n'']
         else if n = 0x0D then [CHR 0x5C, CHR ''r'']
         else if n = 0x09 then [CHR 0x5C, CHR ''t'']
         else if n = 0x08 then [CHR 0x5C, CHR ''b'']
         else if n = 0x0C then [CHR 0x5C, CHR ''f'']
         else if 0x20 \<le> n \<and> n \<le> 0x7E then [c]
         else [CHR 0x5C, CHR ''u'', CHR ''0'', CHR ''0'', hex_digit (n div 16), hex_digit n])"

definition json_string :: "string \<Rightarrow> string" where
  "json_string s = [CHR 0x22] @ concat (map escape_char s) @ [CHR 0x22]"

function show_nat :: "nat \<Rightarrow> string" where
  "show_nat n = (if n < 10 then [hex_digit n] else show_nat (n div 10) @ [hex_digit (n mod 10)])"
  by pat_completeness auto
termination
  by (relation "measure id") auto

definition show_int :: "int \<Rightarrow> string" where
  "show_int i = (if i < 0 then ''-'' @ show_nat (nat (- i)) else show_nat (nat i))"

fun join :: "string \<Rightarrow> string list \<Rightarrow> string" where
  "join sep [] = []"
| "join sep [x] = x"
| "join sep (x # y # ys) = x @ sep @ join sep (y # ys)"

text \<open>A line break and the indentation of nesting depth \<open>level\<close>, when \<open>indent\<close> is given.\<close>

definition newline_indent :: "nat option \<Rightarrow> nat \<Rightarrow> string" where
  "newline_indent indent level =
     (case indent of None \<Rightarrow> [] | Some n \<Rightarrow> newline # replicate (n * level) CHR '' '')"

definition item_separator :: "nat option \<Rightarrow> string" where
  "item_separator indent = (case indent of None \<Rightarrow> '', '' | Some n \<Rightarrow> '','')"

function json_encode :: "nat option \<Rightarrow> bool \<Rightarrow> nat \<Rightarrow> json \<Rightarrow> string" where
  "json_encode indent sort_keys level JNull = ''null''"
| "json_encode indent sort_keys level (JBool b) = (if b then ''true'' else ''false'')"
| "json_encode indent sort_keys level (JNum i) = show_int i"
| "json_encode indent sort_keys level (JStr s) = json_string s"
| "json_encode indent sort_keys level (JArr xs) =
     (if xs = [] then ''[]''
      else ''['' @ newline_indent indent (Suc level)
        @ join (item_separator indent @ newline_indent indent (Suc level))
            (map (json_encode indent sort_keys (Suc level)) xs)
        @ newline_indent indent level @ '']'')"
| "json_encode indent sort_keys level (JObj kvs) =
     (if kvs = [] then ''{}''
      else ''{'' @ newline_indent indent (Suc level)
        @ join (item_separator indent @ newline_indent indent (Suc level))
            (map (\<lambda>kv. json_string (fst kv) @ '': '' @ json_encode indent sort_keys (Suc level) (snd kv))
               (if sort_keys then sort_key fst kvs else kvs))
        @ newline_indent indent level @ ''}'')"
  by pat_completeness auto
termination
proof (relation "measure (\<lambda>(indent, sort_keys, level, j). size j)", goal_cases)
  case 1
  show ?case by simp
next
  case (2 indent sort_keys level xs x)
  then show ?case by (simp add: size_list_estimation' less_Suc_eq_le)
next
  case (3 indent sort_keys level kvs kv)
  then have mem: "kv \<in> set kvs" by (simp split: if_splits)
  have "size (snd kv) < Suc (size_list (size_prod (\<lambda>x. 0) size) kvs)"
    using mem by (induction kvs) (auto simp: less_Suc_eq_le)
  then show ?case by simp
qed

definition json_dumps :: "nat option \<Rightarrow> bool \<Rightarrow> json \<Rightarrow> string" where
  "json_dumps indent sort_keys j = json_encode indent sort_keys 0 j"

text \<open>An entry as the dict literal the program appends: the \<open>ssl\<close> key is there for the
  TLS entries only, between \<open>CC\<close> and \<open>FLAGS\<close>.\<close>

definition entry_dict :: "entry \<Rightarrow> json" where
  "entry_dict en =
     JObj ([(''name'', JStr (name en)), (''os'', JStr (os en)),
            (''TARGET'', JStr (TARGET en)), (''CC'', JStr (CC en))]
           @ (case ssl en of None \<Rightarrow> [] | Some v \<Rightarrow> [(''ssl'', JStr v)])
           @ [(''FLAGS'', JArr (map JStr (FLAGS en)))])"

definition matrix_json :: "entry list \<Rightarrow> json" where
  "matrix_json m = JArr (map entry_dict m)"

section \<open>Building the matrix\<close>

text \<open>A \<^verbatim>\<open>for\<close> loop over a list: an exception raised by the body ends the loop.\<close>

fun for_each :: "'a list \<Rightarrow> ('a \<Rightarrow> pstate \<Rightarrow> (exn + unit) \<times> pstate) \<Rightarrow> pstate \<Rightarrow> (exn + unit) \<times> pstate" where
  "for_each [] body s = (Inr (), s)"
| "for_each (x # xs) body s =
     (case body x s of
        (Inl err, s') \<Rightarrow> (Inl err, s')
      | (Inr u, s') \<Rightarrow> for_each xs body s')"

text \<open>The flag list of the "all features" entry; the ASAN entry repeats it literally.\<close>

definition all_features :: "string list" where
  "all_features =
     [''USE_ZLIB=1'',
      ''USE_OT=1'',
      ''OT_INC=${HOME}/opt-ot/include'',
      ''OT_LIB=${HOME}/opt-ot/lib'',
      ''OT_RUNPATH=1'',
      ''USE_PCRE=1'',
      ''USE_PCRE_JIT=1'',
      ''USE_LUA=1'',
      ''USE_OPENSSL=1'',
      ''USE_SYSTEMD=1'',
      ''USE_WURFL=1'',
      ''WURFL_INC=addons/wurfl/dummy'',
      ''WURFL_LIB=addons/wurfl/dummy'',
      ''USE_DEVICEATLAS=1'',
      ''DEVICEATLAS_SRC=addons/deviceatlas/dummy'',
      ''USE_PROMEX=1'',
      ''USE_51DEGREES=1'',
      ''51DEGREES_SRC=addons/51degrees/dummy/pattern'']"

definition linux_os :: "string \<Rightarrow> string" where
  "linux_os ref_name =
     (if str_in ''haproxy-'' ref_name then ''ubuntu-22.04'' else ''ubuntu-latest'')"

definition macos_os :: "string \<Rightarrow> string" where
  "macos_os ref_name =
     (if str_in ''haproxy-'' ref_name then ''macos-12'' else ''macos-latest'')"

definition ssl_versions :: "string \<Rightarrow> string list" where
  "ssl_versions ref_name =
     (let markers = [''stock'', ''OPENSSL_VERSION=1.0.2u'', ''OPENSSL_VERSION=1.1.1s'',
                    ''QUICTLS=yes'']
      in if \<not> str_in ''haproxy-'' ref_name
         then markers @ [''OPENSSL_VERSION=latest'', ''LIBRESSL_VERSION=latest'']
         else markers)"

text \<open>The flags of a TLS entry, built from the marker as the list names it.\<close>

definition ssl_flags :: "string \<Rightarrow> string list" where
  "ssl_flags sslv =
     [''USE_OPENSSL=1'']
     @ (if sslv = ''BORINGSSL=yes'' \<or> sslv = ''QUICTLS=yes'' \<or> str_in ''LIBRESSL'' sslv
        then [''USE_QUIC=1''] else [])
     @ (if sslv \<noteq> ''stock''
        then [''SSL_LIB=${HOME}/opt/lib'', ''SSL_INC=${HOME}/opt/include''] else [])"

text \<open>The two \<^verbatim>\<open>if\<close>s that replace a "latest" marker; the second tests the value the
  first has left in \<open>ssl\<close>.\<close>

definition resolve_latest :: "env \<Rightarrow> string \<Rightarrow> pstate \<Rightarrow> (exn + string) \<times> pstate" where
  "resolve_latest e sslv s =
     (case (if str_in ''LIBRESSL'' sslv \<and> str_in ''latest'' sslv
            then determine_latest_libressl e sslv s else (Inr sslv, s)) of
        (Inl err, s1) \<Rightarrow> (Inl err, s1)
      | (Inr ssl1, s1) \<Rightarrow>
          (if str_in ''OPENSSL'' ssl1 \<and> str_in ''latest'' ssl1
           then determine_latest_openssl e ssl1 s1 else (Inr ssl1, s1)))"

definition ssl_step :: "env \<Rightarrow> string \<Rightarrow> string \<Rightarrow> string \<Rightarrow> string \<Rightarrow> pstate \<Rightarrow> (exn + unit) \<times> pstate" where
  "ssl_step e osn target cc sslv s =
     (let flags = ssl_flags sslv
      in case resolve_latest e sslv s of
           (Inl err, s1) \<Rightarrow> (Inl err, s1)
         | (Inr ssl', s1) \<Rightarrow>
             (Inr (),
              matrix_append
                \<lparr>name = osn @ '', '' @ cc @ '', ssl='' @ clean_ssl ssl',
                 os = osn, TARGET = target, CC = cc, ssl = Some ssl', FLAGS = flags\<rparr> s1))"

definition compression_step :: "string \<Rightarrow> string \<Rightarrow> string \<Rightarrow> string \<Rightarrow> pstate \<Rightarrow> (exn + unit) \<times> pstate" where
  "compression_step osn target cc compression s =
     (Inr (),
      matrix_append
        \<lparr>name = osn @ '', '' @ cc @ '', gz='' @ clean_compression compression,
         os = osn, TARGET = target, CC = cc, ssl = None, FLAGS = [compression]\<rparr> s)"

definition no_features :: "string \<Rightarrow> string \<Rightarrow> string \<Rightarrow> entry" where
  "no_features osn target cc =
     \<lparr>name = osn @ '', '' @ cc @ '', no features'',
      os = osn, TARGET = target, CC = cc, ssl = None, FLAGS = []\<rparr>"

text \<open>The body of the loop over the Linux compilers.\<close>

definition linux_step :: "env \<Rightarrow> string \<Rightarrow> string \<Rightarrow> string \<Rightarrow> string \<Rightarrow> pstate \<Rightarrow> (exn + unit) \<times> pstate" where
  "linux_step e ref_name osn target cc s =
     (let s1 = matrix_append (no_features osn target cc) s;
          s2 = matrix_append
                 \<lparr>name = osn @ '', '' @ cc @ '', all features'',
                  os = osn, TARGET = target, CC = cc, ssl = None, FLAGS = all_features\<rparr> s1;
          s3 = matrix_append
                 \<lparr>name = osn @ '', '' @ cc @ '', ASAN, all features'',
                  os = osn, TARGET = target, CC = cc, ssl = None,
                  FLAGS = get_asan_flags cc @ all_features\<rparr> s2
      in case for_each [''USE_ZLIB=1''] (compression_step osn target cc) s3 of
           (Inl err, s4) \<Rightarrow> (Inl err, s4)
         | (Inr u, s4) \<Rightarrow> for_each (ssl_versions ref_name) (ssl_step e osn target cc) s4)"

definition macos_step :: "string \<Rightarrow> string \<Rightarrow> string \<Rightarrow> pstate \<Rightarrow> (exn + unit) \<times> pstate" where
  "macos_step osn target cc s = (Inr (), matrix_append (no_features osn target cc) s)"

section \<open>Output and the whole program\<close>

definition banner :: "string \<Rightarrow> string" where
  "banner ref_name =
     ''Generating matrix for branch '' @ [CHR 0x27] @ ref_name @ [CHR 0x27] @ ''.''"

text \<open>The last three lines: with GITHUB\_OUTPUT set, one line is appended to that file.\<close>

definition write_github_output :: "env \<Rightarrow> pstate \<Rightarrow> (exn + unit) \<times> pstate" where
  "write_github_output e s =
     (case GITHUB_OUTPUT e of
        None \<Rightarrow> (Inr (), s)
      | Some path \<Rightarrow>
          (if output_writable e
           then (Inr (),
                 s\<lparr>output_file := output_file s @ ''matrix=''
                      @ json_dumps None False (JObj [(''include'', matrix_json (matrix s))])
                      @ [newline]\<rparr>)
           else (Inl OSError, s)))"

text \<open>Everything after the argument check, for the ref name taken from the command line.\<close>

definition generate :: "env \<Rightarrow> string \<Rightarrow> pstate \<Rightarrow> (exn + unit) \<times> pstate" where
  "generate e ref_name s =
     (let s1 = print_stdout (banner ref_name) s
      in case for_each [''gcc'', ''clang'']
                (linux_step e ref_name (linux_os ref_name) ''linux-glibc'') s1 of
           (Inl err, s2) \<Rightarrow> (Inl err, s2)
         | (Inr u, s2) \<Rightarrow>
             (case for_each [''clang''] (macos_step (macos_os ref_name) ''osx'') s2 of
                (Inl err, s3) \<Rightarrow> (Inl err, s3)
              | (Inr u, s3) \<Rightarrow>
                  write_github_output e
                    (print_stdout (json_dumps (Some 4) True (matrix_json (matrix s3))) s3)))"

text \<open>\<open>sys.argv\<close> is the script name followed by the arguments.\<close>

definition main :: "env \<Rightarrow> string \<Rightarrow> string list \<Rightarrow> pstate \<Rightarrow> (exn + unit) \<times> pstate" where
  "main e prog args s =
     (let argv = prog # args
      in if length argv = 2 then generate e (argv ! 1) s
         else (Inl (SystemExit 1), print_stderr (''Usage: '' @ argv ! 0 @ '' <ref_name>'') s))"

text \<open>The exit status of the process: 0 when the script runs to its end, the argument
  of \<^verbatim>\<open>sys.exit\<close>, and 1 for any other exception that nothing caught.\<close>

definition exit_status :: "exn + unit \<Rightarrow> nat" where
  "exit_status r = (case r of Inr u \<Rightarrow> 0 | Inl (SystemExit n) \<Rightarrow> n | Inl err \<Rightarrow> 1)"

definition run :: "env \<Rightarrow> string \<Rightarrow> string list \<Rightarrow> nat \<times> pstate" where
  "run e prog args = (case main e prog args initial of (r, s) \<Rightarrow> (exit_status r, s))"

section \<open>The shape of the generated entries\<close>

text \<open>The entry a TLS step appends: named after the resolved marker, flagged after the
  marker of the candidate list.\<close>

definition ssl_entry :: "string \<Rightarrow> string \<Rightarrow> string \<Rightarrow> string \<Rightarrow> string \<Rightarrow> entry" where
  "ssl_entry osn target cc marker resolved =
     \<lparr>name = osn @ '', '' @ cc @ '', ssl='' @ clean_ssl resolved,
      os = osn, TARGET = target, CC = cc, ssl = Some resolved, FLAGS = ssl_flags marker\<rparr>"

definition fixed_entries :: "string \<Rightarrow> string \<Rightarrow> string \<Rightarrow> entry list" where
  "fixed_entries osn target cc =
     [no_features osn target cc,
      \<lparr>name = osn @ '', '' @ cc @ '', all features'',
       os = osn, TARGET = target, CC = cc, ssl = None, FLAGS = all_features\<rparr>,
      \<lparr>name = osn @ '', '' @ cc @ '', ASAN, all features'',
       os = osn, TARGET = target, CC = cc, ssl = None, FLAGS = get_asan_flags cc @ all_features\<rparr>,
      \<lparr>name = osn @ '', '' @ cc @ '', gz=zlib=1'',
       os = osn, TARGET = target, CC = cc, ssl = None, FLAGS = [''USE_ZLIB=1'']\<rparr>]"

definition ssl_entries :: "string \<Rightarrow> string \<Rightarrow> string \<Rightarrow> string list \<Rightarrow> string list \<Rightarrow> entry list" where
  "ssl_entries osn target cc markers resolved =
     map (\<lambda>p. ssl_entry osn target cc (fst p) (snd p)) (zip markers resolved)"

definition linux_leg :: "string \<Rightarrow> string \<Rightarrow> string list \<Rightarrow> string list \<Rightarrow> entry list" where
  "linux_leg osn cc markers resolved =
     fixed_entries osn ''linux-glibc'' cc @ ssl_entries osn ''linux-glibc'' cc markers resolved"

definition is_exit :: "exn \<Rightarrow> bool" where
  "is_exit x = (case x of SystemExit n \<Rightarrow> True | _ \<Rightarrow> False)"

text \<open>What the caches of a state say about a marker: \<open>memo s m r\<close> holds when the two
  tests of the TLS step, answered from the caches alone, turn \<open>m\<close> into \<open>r\<close>.\<close>

definition wants_libressl :: "string \<Rightarrow> bool" where
  "wants_libressl m = (str_in ''LIBRESSL'' m \<and> str_in ''latest'' m)"

definition wants_openssl :: "string \<Rightarrow> bool" where
  "wants_openssl m = (str_in ''OPENSSL'' m \<and> str_in ''latest'' m)"

definition memo :: "pstate \<Rightarrow> string \<Rightarrow> string \<Rightarrow> bool" where
  "memo s m r =
     (\<exists>v. (if wants_libressl m then map_of (libressl_cache s) m = Some v else v = m)
        \<and> (if wants_openssl v then map_of (openssl_cache s) v = Some r else r = v))"

definition log_keys :: "pstate \<Rightarrow> (string \<times> string) list" where
  "log_keys s = map (\<lambda>p. (fst p, url (snd p))) (network_log s)"

definition logged_cached :: "pstate \<Rightarrow> bool" where
  "logged_cached s =
     (distinct (log_keys s)
      \<and> (\<forall>p \<in> set (log_keys s).
            (snd p = openssl_url \<longrightarrow> map_of (openssl_cache s) (fst p) \<noteq> None)
          \<and> (snd p = libressl_url \<longrightarrow> map_of (libressl_cache s) (fst p) \<noteq> None)))"

definition latest_count :: "string list \<Rightarrow> nat" where
  "latest_count ms = length (filter (str_in ''latest'') ms)"

text \<open>The Linux entries of one compiler, in the order of the matrix.\<close>

definition leg_of :: "string \<Rightarrow> entry list \<Rightarrow> entry list" where
  "leg_of cc m = filter (\<lambda>en. TARGET en = ''linux-glibc'' \<and> CC en = cc) m"

text \<open>An entry whose display name carries an \<open>ssl=\<close> descriptor.\<close>

definition ssl_named :: "entry \<Rightarrow> bool" where
  "ssl_named en = str_in '', ssl='' (name en)"

text \<open>Two environments to run the program in: one without any network, and one where
  both endpoints answer as they usually do.\<close>

definition offline_env :: env where
  "offline_env = \<lparr>GITHUB_TOKEN = None, GITHUB_OUTPUT = None, output_writable = True,
     openssl_net = [], libressl_net = []\<rparr>"

definition demo_env :: env where
  \<open>demo_env = \<lparr>GITHUB_TOKEN = Some ''t0ken'', GITHUB_OUTPUT = Some ''/tmp/out'',
     output_writable = True,
     openssl_net = [Response 200 (TagsJson (JArr
        [JObj [(''name'', JStr ''openssl-3.2.0''), (''node_id'', JStr ''a'')],
         JObj [(''name'', JStr ''OpenSSL_1_1_1w''), (''node_id'', JStr ''b'')],
         JObj [(''name'', JStr ''openssl-3.1.4''), (''node_id'', JStr ''c'')]]))],
     libressl_net = [Response 200 (ListingLines
        [Some ''<a href="libressl-3.8.1.tar.gz.asc">libressl-3.8.1.tar.gz.asc</a>'',
         Some ''<a href="libressl-3.8.2.tar.gz">libressl-3.8.2.tar.gz</a>'',
         Some ''<a href="libressl-3.8.2.tar.gz.asc">libressl-3.8.2.tar.gz.asc</a>''])]\<rparr>\<close>

text \<open>
  The layout the specification describes for standard output, written out for a list
  of entries: a JSON array with one object per entry, the keys of each object in
  alphabetical order (\<open>CC\<close>, \<open>FLAGS\<close>, \<open>TARGET\<close>, \<open>name\<close>, \<open>os\<close> and, when the entry has
  one, \<open>ssl\<close>), and four more spaces of indentation per nesting level.
\<close>

definition line_indent :: "nat \<Rightarrow> string" where
  "line_indent n = newline # replicate n CHR '' ''"

definition pretty_strings :: "string list \<Rightarrow> string" where
  "pretty_strings xs =
     (if xs = [] then ''[]''
      else ''['' @ line_indent 12 @ join ('','' @ line_indent 12) (map json_string xs)
           @ line_indent 8 @ '']'')"

definition pretty_entry :: "entry \<Rightarrow> string" where
  "pretty_entry en =
     ''{'' @ line_indent 8 @ json_string ''CC'' @ '': '' @ json_string (CC en)
     @ '','' @ line_indent 8 @ json_string ''FLAGS'' @ '': '' @ pretty_strings (FLAGS en)
     @ '','' @ line_indent 8 @ json_string ''TARGET'' @ '': '' @ json_string (TARGET en)
     @ '','' @ line_indent 8 @ json_string ''name'' @ '': '' @ json_string (name en)
     @ '','' @ line_indent 8 @ json_string ''os'' @ '': '' @ json_string (os en)
     @ (case ssl en of
          None \<Rightarrow> []
        | Some v \<Rightarrow> '','' @ line_indent 8 @ json_string ''ssl'' @ '': '' @ json_string v)
     @ line_indent 4 @ ''}''"

definition pretty_matrix :: "entry list \<Rightarrow> string" where
  "pretty_matrix m =
     (if m = [] then ''[]''
      else ''['' @ line_indent 4 @ join ('','' @ line_indent 4) (map pretty_entry m)
           @ line_indent 0 @ '']'')"


section \<open>Naming (C3)\<close>

lemma clean_compression_zlib: "clean_compression ''USE_ZLIB=1'' = ''zlib=1''"
  by code_simp

lemma clean_ssl_1_1_1s: "clean_ssl ''OPENSSL_VERSION=1.1.1s'' = ''openssl=1.1.1s''"
  by code_simp

text \<open>
  C3, as stated: the compression flag \<open>USE_ZLIB=1\<close> yields the descriptor component
  \<open>zlib\<close>.  It does not: \<open>clean_compression\<close> removes \<open>USE_\<close> and lowercases, and the
  \<open>=1\<close> stays.
\<close>

theorem C3_counterexample: "clean_compression ''USE_ZLIB=1'' \<noteq> ''zlib''"
  by code_simp

text \<open>
  C3, amended: \<open>clean_compression\<close> turns \<open>USE_ZLIB=1\<close> into \<open>zlib=1\<close>, so the compression
  entry is named \<open><os>, <CC>, gz=zlib=1\<close>; \<open>clean_ssl\<close> turns \<open>OPENSSL_VERSION=1.1.1s\<close>
  into \<open>openssl=1.1.1s\<close>.
\<close>

theorem C3_descriptors:
  "clean_compression ''USE_ZLIB=1'' = ''zlib=1''
   \<and> clean_ssl ''OPENSSL_VERSION=1.1.1s'' = ''openssl=1.1.1s''
   \<and> compression_step osn target cc ''USE_ZLIB=1'' s =
       (Inr (), matrix_append
          \<lparr>name = osn @ '', '' @ cc @ '', gz=zlib=1'', os = osn, TARGET = target, CC = cc,
           ssl = None, FLAGS = [''USE_ZLIB=1'']\<rparr> s)"
  by (simp add: clean_compression_zlib clean_ssl_1_1_1s compression_step_def)

section \<open>The candidate markers\<close>

lemma ssl_versions_stable:
  "str_in ''haproxy-'' r \<Longrightarrow> ssl_versions r =
     [''stock'', ''OPENSSL_VERSION=1.0.2u'', ''OPENSSL_VERSION=1.1.1s'', ''QUICTLS=yes'']"
  by (simp add: ssl_versions_def)

lemma ssl_versions_dev:
  "\<not> str_in ''haproxy-'' r \<Longrightarrow> ssl_versions r =
     [''stock'', ''OPENSSL_VERSION=1.0.2u'', ''OPENSSL_VERSION=1.1.1s'', ''QUICTLS=yes'',
      ''OPENSSL_VERSION=latest'', ''LIBRESSL_VERSION=latest'']"
  by (simp add: ssl_versions_def)

section \<open>What a resolver call leaves alone\<close>

lemma openssl_frame:
  "determine_latest_openssl e k s = (r, s') \<Longrightarrow>
     matrix s' = matrix s \<and> stdout s' = stdout s \<and> stderr s' = stderr s
     \<and> output_file s' = output_file s \<and> libressl_cache s' = libressl_cache s"
  by (auto simp: determine_latest_openssl_def determine_latest_openssl_body_def send_def
           split: option.splits sum.splits prod.splits)

lemma libressl_frame:
  "determine_latest_libressl e k s = (r, s') \<Longrightarrow>
     matrix s' = matrix s \<and> stdout s' = stdout s \<and> stderr s' = stderr s
     \<and> output_file s' = output_file s \<and> openssl_cache s' = openssl_cache s"
  by (auto simp: determine_latest_libressl_def determine_latest_libressl_body_def send_def
           split: option.splits sum.splits prod.splits)

lemma resolve_latest_frame:
  "resolve_latest e m s = (r, s') \<Longrightarrow>
     matrix s' = matrix s \<and> stdout s' = stdout s \<and> stderr s' = stderr s
     \<and> output_file s' = output_file s"
  unfolding resolve_latest_def
  by (auto split: if_splits sum.splits prod.splits dest!: openssl_frame libressl_frame)

lemma resolve_latest_pinned:
  "\<not> str_in ''latest'' m \<Longrightarrow> resolve_latest e m s = (Inr m, s)"
  by (simp add: resolve_latest_def)

lemma ssl_step_eq:
  "ssl_step e osn target cc m s =
     (case resolve_latest e m s of
        (Inl err, s1) \<Rightarrow> (Inl err, s1)
      | (Inr r, s1) \<Rightarrow> (Inr (), matrix_append (ssl_entry osn target cc m r) s1))"
  by (simp add: ssl_step_def ssl_entry_def Let_def split: prod.splits sum.splits)

section \<open>The loops, entry by entry\<close>

lemma for_each_ssl_frame:
  "for_each ms (ssl_step e osn target cc) s = (res, s') \<Longrightarrow>
     stdout s' = stdout s \<and> stderr s' = stderr s \<and> output_file s' = output_file s"
proof (induction ms arbitrary: s)
  case Nil
  then show ?case by simp
next
  case (Cons m ms)
  obtain r s1 where r: "resolve_latest e m s = (r, s1)" by (cases "resolve_latest e m s")
  from resolve_latest_frame[OF r]
  have fr: "stdout s1 = stdout s" "stderr s1 = stderr s" "output_file s1 = output_file s" by simp_all
  show ?case
  proof (cases r)
    case (Inl err)
    with Cons.prems r fr show ?thesis by (simp add: ssl_step_eq[of e osn target cc m s])
  next
    case (Inr v)
    with Cons.prems r
    have "for_each ms (ssl_step e osn target cc) (matrix_append (ssl_entry osn target cc m v) s1) = (res, s')"
      by (simp add: ssl_step_eq[of e osn target cc m s])
    from Cons.IH[OF this] fr show ?thesis by (simp add: matrix_append_def)
  qed
qed

lemma for_each_ssl_matrix:
  "for_each ms (ssl_step e osn target cc) s = (Inr (), s') \<Longrightarrow>
     \<exists>rs. length rs = length ms
        \<and> matrix s' = matrix s @ ssl_entries osn target cc ms rs
        \<and> (\<forall>i < length ms. \<not> str_in ''latest'' (ms ! i) \<longrightarrow> rs ! i = ms ! i)"
proof (induction ms arbitrary: s)
  case Nil
  then show ?case by (simp add: ssl_entries_def)
next
  case (Cons m ms)
  obtain r s1 where r: "resolve_latest e m s = (r, s1)" by (cases "resolve_latest e m s")
  from resolve_latest_frame[OF r] have fr: "matrix s1 = matrix s" by simp
  from Cons.prems r obtain v where v: "r = Inr v"
    by (cases r) (simp_all add: ssl_step_eq[of e osn target cc m s])
  from Cons.prems r v
  have "for_each ms (ssl_step e osn target cc) (matrix_append (ssl_entry osn target cc m v) s1) = (Inr (), s')"
    by (simp add: ssl_step_eq[of e osn target cc m s])
  from Cons.IH[OF this] obtain rs where rs: "length rs = length ms"
    "matrix s' = matrix (matrix_append (ssl_entry osn target cc m v) s1) @ ssl_entries osn target cc ms rs"
    "\<forall>i < length ms. \<not> str_in ''latest'' (ms ! i) \<longrightarrow> rs ! i = ms ! i"
    by blast
  have pin: "\<not> str_in ''latest'' m \<Longrightarrow> v = m"
    using r v by (simp add: resolve_latest_pinned)
  have "length (v # rs) = length (m # ms)" using rs(1) by simp
  moreover have "matrix s' = matrix s @ ssl_entries osn target cc (m # ms) (v # rs)"
    using rs(2) fr by (simp add: matrix_append_def ssl_entries_def)
  moreover have "\<forall>i < length (m # ms). \<not> str_in ''latest'' ((m # ms) ! i) \<longrightarrow> (v # rs) ! i = (m # ms) ! i"
    using rs(3) pin by (auto simp: nth_Cons split: nat.splits)
  ultimately show ?case by blast
qed

lemma linux_step_frame:
  "linux_step e ref_name osn target cc s = (res, s') \<Longrightarrow>
     stdout s' = stdout s \<and> stderr s' = stderr s \<and> output_file s' = output_file s"
  by (auto simp: linux_step_def Let_def compression_step_def matrix_append_def
      dest!: for_each_ssl_frame)

lemma linux_step_matrix:
  "linux_step e ref_name osn target cc s = (Inr (), s') \<Longrightarrow>
     \<exists>rs. length rs = length (ssl_versions ref_name)
        \<and> matrix s' = matrix s @ fixed_entries osn target cc
                        @ ssl_entries osn target cc (ssl_versions ref_name) rs
        \<and> (\<forall>i < length (ssl_versions ref_name).
              \<not> str_in ''latest'' (ssl_versions ref_name ! i) \<longrightarrow> rs ! i = ssl_versions ref_name ! i)"
  by (auto simp: linux_step_def Let_def compression_step_def matrix_append_def fixed_entries_def
        clean_compression_zlib
      dest!: for_each_ssl_matrix)

section \<open>Which exceptions can escape, and the run as a whole\<close>

lemma scan_tags_no_exit: "scan_tags ts l = Inl x \<Longrightarrow> \<not> is_exit x"
proof (induction ts arbitrary: l)
  case Nil
  then show ?case by simp
next
  case (Cons t ts)
  show ?case
  proof (cases "py_getitem t ''name''")
    case (Inl y)
    with Cons.prems have "x = y" by simp
    moreover from Inl have "y = KeyError \<or> y = TypeError"
      by (cases t) (auto split: option.splits)
    ultimately show ?thesis by (auto simp: is_exit_def)
  next
    case (Inr nm)
    with Cons.prems Cons.IH show ?thesis
      by (cases nm) (auto simp: is_exit_def split: if_splits bool.splits)
  qed
qed

lemma openssl_from_outcome_no_exit: "openssl_from_outcome out = Inl x \<Longrightarrow> \<not> is_exit x"
proof -
  assume a: "openssl_from_outcome out = Inl x"
  have rj: "\<And>b y. read_json b = Inl y \<Longrightarrow> \<not> is_exit y"
    by (case_tac b) (auto simp: is_exit_def)
  have it: "\<And>j y. py_iter j = Inl y \<Longrightarrow> \<not> is_exit y"
    by (case_tac j) (auto simp: is_exit_def)
  from a show ?thesis
    by (auto simp: openssl_from_outcome_def split: sum.splits dest: rj it scan_tags_no_exit)
qed

lemma scan_lines_no_exit: "scan_lines ls l = Inl x \<Longrightarrow> \<not> is_exit x"
  by (induction ls arbitrary: l)
     (auto simp: is_exit_def split: option.splits if_splits list.splits)

lemma libressl_from_outcome_no_exit: "libressl_from_outcome out = Inl x \<Longrightarrow> \<not> is_exit x"
proof -
  assume a: "libressl_from_outcome out = Inl x"
  have rl: "\<And>b y. readlines b = Inl y \<Longrightarrow> \<not> is_exit y"
    by (case_tac b) (auto simp: is_exit_def)
  from a show ?thesis
    by (auto simp: libressl_from_outcome_def is_exit_def split: sum.splits option.splits
        dest: rl scan_lines_no_exit)
qed

lemma resolve_latest_no_exit: "resolve_latest e m s = (Inl x, s') \<Longrightarrow> \<not> is_exit x"
  by (auto simp: resolve_latest_def determine_latest_openssl_def determine_latest_libressl_def
        determine_latest_openssl_body_def determine_latest_libressl_body_def
      split: if_splits sum.splits option.splits prod.splits
      dest: openssl_from_outcome_no_exit libressl_from_outcome_no_exit)

lemma for_each_ssl_no_exit:
  "for_each ms (ssl_step e osn target cc) s = (Inl x, s') \<Longrightarrow> \<not> is_exit x"
proof (induction ms arbitrary: s)
  case Nil
  then show ?case by simp
next
  case (Cons m ms)
  obtain r s1 where r: "resolve_latest e m s = (r, s1)" by (cases "resolve_latest e m s")
  show ?case
  proof (cases r)
    case (Inl err)
    with Cons.prems r have "x = err" by (simp add: ssl_step_eq[of e osn target cc m s])
    with r Inl show ?thesis using resolve_latest_no_exit by blast
  next
    case (Inr v)
    with Cons.prems r
    have "for_each ms (ssl_step e osn target cc) (matrix_append (ssl_entry osn target cc m v) s1) = (Inl x, s')"
      by (simp add: ssl_step_eq[of e osn target cc m s])
    from Cons.IH[OF this] show ?thesis .
  qed
qed

lemma linux_step_no_exit:
  "linux_step e ref_name osn target cc s = (Inl x, s') \<Longrightarrow> \<not> is_exit x"
  by (auto simp: linux_step_def Let_def compression_step_def dest!: for_each_ssl_no_exit)

lemma write_github_output_no_exit:
  "write_github_output e s = (Inl x, s') \<Longrightarrow> \<not> is_exit x"
  by (auto simp: write_github_output_def is_exit_def split: option.splits if_splits)

lemma generate_no_exit:
  assumes "generate e ref_name s = (Inl x, s')"
  shows "\<not> is_exit x"
proof -
  let ?s1 = "print_stdout (banner ref_name) s"
  let ?osn = "linux_os ref_name"
  obtain r2 s2 where a: "linux_step e ref_name ?osn ''linux-glibc'' ''gcc'' ?s1 = (r2, s2)"
    by (cases "linux_step e ref_name ?osn ''linux-glibc'' ''gcc'' ?s1")
  show ?thesis
  proof (cases r2)
    case (Inl y)
    with assms a have "x = y" by (simp add: generate_def Let_def)
    with a Inl show ?thesis using linux_step_no_exit by blast
  next
    case r2: (Inr u)
    obtain r3 s3 where b: "linux_step e ref_name ?osn ''linux-glibc'' ''clang'' s2 = (r3, s3)"
      by (cases "linux_step e ref_name ?osn ''linux-glibc'' ''clang'' s2")
    show ?thesis
    proof (cases r3)
      case (Inl y)
      with assms a b r2 have "x = y" by (simp add: generate_def Let_def)
      with b Inl show ?thesis using linux_step_no_exit by blast
    next
      case (Inr v)
      with assms a b r2 have "\<exists>t. write_github_output e t = (Inl x, s')"
        by (auto simp: generate_def Let_def macos_step_def)
      then show ?thesis using write_github_output_no_exit by blast
    qed
  qed
qed

lemma run_ok_iff:
  "run e prog [ref_name] = (0, fin) \<longleftrightarrow> generate e ref_name initial = (Inr (), fin)"
proof -
  obtain r s where g: "generate e ref_name initial = (r, s)" by (cases "generate e ref_name initial")
  show ?thesis
  proof (cases r)
    case (Inl x)
    with g have "\<not> is_exit x" using generate_no_exit by blast
    then have "exit_status (Inl x) = 1" by (cases x) (simp_all add: exit_status_def is_exit_def)
    with g Inl show ?thesis by (simp add: run_def main_def)
  next
    case (Inr u)
    with g show ?thesis by (simp add: run_def main_def exit_status_def)
  qed
qed

lemma write_github_output_frame:
  "write_github_output e s = (r, s') \<Longrightarrow>
     matrix s' = matrix s \<and> stdout s' = stdout s \<and> stderr s' = stderr s"
  by (auto simp: write_github_output_def split: option.splits if_splits)

lemma generate_result:
  assumes "generate e ref_name s = (Inr (), s')"
  shows "\<exists>rs1 rs2.
     length rs1 = length (ssl_versions ref_name) \<and> length rs2 = length (ssl_versions ref_name)
     \<and> matrix s' = matrix s
          @ linux_leg (linux_os ref_name) ''gcc'' (ssl_versions ref_name) rs1
          @ linux_leg (linux_os ref_name) ''clang'' (ssl_versions ref_name) rs2
          @ [no_features (macos_os ref_name) ''osx'' ''clang'']
     \<and> (\<forall>i < length (ssl_versions ref_name).
           \<not> str_in ''latest'' (ssl_versions ref_name ! i) \<longrightarrow>
             rs1 ! i = ssl_versions ref_name ! i \<and> rs2 ! i = ssl_versions ref_name ! i)
     \<and> stdout s' = stdout s @ banner ref_name @ [newline]
          @ json_dumps (Some 4) True (matrix_json (matrix s')) @ [newline]
     \<and> stderr s' = stderr s"
proof -
  let ?s1 = "print_stdout (banner ref_name) s"
  let ?osn = "linux_os ref_name"
  obtain r2 s2 where a: "linux_step e ref_name ?osn ''linux-glibc'' ''gcc'' ?s1 = (r2, s2)"
    by (cases "linux_step e ref_name ?osn ''linux-glibc'' ''gcc'' ?s1")
  have r2: "r2 = Inr ()" using assms a by (cases r2) (simp_all add: generate_def Let_def)
  obtain r3 s3 where b: "linux_step e ref_name ?osn ''linux-glibc'' ''clang'' s2 = (r3, s3)"
    by (cases "linux_step e ref_name ?osn ''linux-glibc'' ''clang'' s2")
  have r3: "r3 = Inr ()" using assms a b r2 by (cases r3) (simp_all add: generate_def Let_def)
  let ?s4 = "matrix_append (no_features (macos_os ref_name) ''osx'' ''clang'') s3"
  let ?s5 = "print_stdout (json_dumps (Some 4) True (matrix_json (matrix ?s4))) ?s4"
  have w: "write_github_output e ?s5 = (Inr (), s')"
    using assms a b r2 r3 by (simp add: generate_def Let_def macos_step_def)
  from write_github_output_frame[OF w]
  have fin: "matrix s' = matrix ?s4" "stdout s' = stdout ?s5" "stderr s' = stderr ?s5"
    by (simp_all add: print_stdout_def)
  from linux_step_matrix[OF a[unfolded r2]] obtain rs1 where rs1:
    "length rs1 = length (ssl_versions ref_name)"
    "matrix s2 = matrix ?s1 @ fixed_entries ?osn ''linux-glibc'' ''gcc''
        @ ssl_entries ?osn ''linux-glibc'' ''gcc'' (ssl_versions ref_name) rs1"
    "\<forall>i < length (ssl_versions ref_name).
        \<not> str_in ''latest'' (ssl_versions ref_name ! i) \<longrightarrow> rs1 ! i = ssl_versions ref_name ! i"
    by blast
  from linux_step_matrix[OF b[unfolded r3]] obtain rs2 where rs2:
    "length rs2 = length (ssl_versions ref_name)"
    "matrix s3 = matrix s2 @ fixed_entries ?osn ''linux-glibc'' ''clang''
        @ ssl_entries ?osn ''linux-glibc'' ''clang'' (ssl_versions ref_name) rs2"
    "\<forall>i < length (ssl_versions ref_name).
        \<not> str_in ''latest'' (ssl_versions ref_name ! i) \<longrightarrow> rs2 ! i = ssl_versions ref_name ! i"
    by blast
  from linux_step_frame[OF a] linux_step_frame[OF b]
  have fr: "stdout s3 = stdout ?s1" "stderr s3 = stderr ?s1" by simp_all
  have m: "matrix s' = matrix s
          @ linux_leg ?osn ''gcc'' (ssl_versions ref_name) rs1
          @ linux_leg ?osn ''clang'' (ssl_versions ref_name) rs2
          @ [no_features (macos_os ref_name) ''osx'' ''clang'']"
    using fin(1) rs1(2) rs2(2) by (simp add: matrix_append_def print_stdout_def linux_leg_def)
  have out: "stdout s' = stdout s @ banner ref_name @ [newline]
          @ json_dumps (Some 4) True (matrix_json (matrix s')) @ [newline]"
    using fin(1,2) fr(1) by (simp add: print_stdout_def matrix_append_def)
  have err: "stderr s' = stderr s"
    using fin(3) fr(2) by (simp add: print_stdout_def matrix_append_def)
  from rs1(1,3) rs2(1,3) m out err show ?thesis by blast
qed

section \<open>Memoization\<close>

lemma urls_differ: "openssl_url \<noteq> libressl_url"
  by (simp add: openssl_url_def libressl_url_def)

lemma map_of_move_front:
  "map_of c k = Some v \<Longrightarrow> map_of ((k, v) # filter (\<lambda>p. fst p \<noteq> k) c) = map_of c"
proof
  fix k'
  assume a: "map_of c k = Some v"
  have "k' \<noteq> k \<Longrightarrow> map_of (filter (\<lambda>p. fst p \<noteq> k) c) k' = map_of c k'"
    by (induction c) auto
  with a show "map_of ((k, v) # filter (\<lambda>p. fst p \<noteq> k) c) k' = map_of c k'"
    by (cases "k' = k") simp_all
qed

lemma length_move_front:
  "map_of c k = Some v \<Longrightarrow> length ((k, v) # filter (\<lambda>p. fst p \<noteq> k) c) \<le> length c"
proof -
  assume "map_of c k = Some v"
  then have "(k, v) \<in> set c" by (rule map_of_SomeD)
  then have "length (filter (\<lambda>p. fst p \<noteq> k) c) < length c"
    by (intro length_filter_less[of "(k, v)"]) simp_all
  then show ?thesis by simp
qed

lemma openssl_hit:
  "map_of (openssl_cache s) k = Some v \<Longrightarrow>
     determine_latest_openssl e k s =
       (Inr v, s\<lparr>openssl_cache := (k, v) # filter (\<lambda>p. fst p \<noteq> k) (openssl_cache s)\<rparr>)"
  by (simp add: determine_latest_openssl_def lru_lookup_def)

lemma libressl_hit:
  "map_of (libressl_cache s) k = Some v \<Longrightarrow>
     determine_latest_libressl e k s =
       (Inr v, s\<lparr>libressl_cache := (k, v) # filter (\<lambda>p. fst p \<noteq> k) (libressl_cache s)\<rparr>)"
  by (simp add: determine_latest_libressl_def lru_lookup_def)

lemma openssl_miss:
  "map_of (openssl_cache s) k = None \<Longrightarrow>
     determine_latest_openssl e k s =
       (case openssl_from_outcome (nth_outcome (openssl_net e) (sent_to openssl_url s)) of
          Inl x \<Rightarrow> (Inl x, send k (openssl_request e) s)
        | Inr v \<Rightarrow> (Inr v, (send k (openssl_request e) s)
                      \<lparr>openssl_cache := take 5 ((k, v) # openssl_cache s)\<rparr>))"
  by (simp add: determine_latest_openssl_def lru_lookup_def determine_latest_openssl_body_def
        lru_store_def send_def split: sum.splits)

lemma libressl_miss:
  "map_of (libressl_cache s) k = None \<Longrightarrow>
     determine_latest_libressl e k s =
       (case libressl_from_outcome (nth_outcome (libressl_net e) (sent_to libressl_url s)) of
          Inl x \<Rightarrow> (Inl x, send k libressl_request s)
        | Inr v \<Rightarrow> (Inr v, (send k libressl_request s)
                      \<lparr>libressl_cache := take 5 ((k, v) # libressl_cache s)\<rparr>))"
  by (simp add: determine_latest_libressl_def lru_lookup_def determine_latest_libressl_body_def
        lru_store_def send_def split: sum.splits)

text \<open>One call of a resolver, started where every logged request is still cached and
  the cache has room.\<close>

lemma openssl_call:
  assumes c: "determine_latest_openssl e k s = (res, s1)"
    and j: "logged_cached s" and n: "length (openssl_cache s) \<le> 4"
  shows "distinct (log_keys s1) \<and> libressl_cache s1 = libressl_cache s
     \<and> (\<forall>v. res = Inr v \<longrightarrow>
           logged_cached s1 \<and> map_of (openssl_cache s1) k = Some v
           \<and> map_of (openssl_cache s) \<subseteq>\<^sub>m map_of (openssl_cache s1)
           \<and> length (openssl_cache s1) \<le> Suc (length (openssl_cache s)))"
proof (cases "map_of (openssl_cache s) k")
  case (Some v)
  from c openssl_hit[OF Some, of e]
  have r: "res = Inr v"
    "s1 = s\<lparr>openssl_cache := (k, v) # filter (\<lambda>p. fst p \<noteq> k) (openssl_cache s)\<rparr>"
    by simp_all
  have m: "map_of (openssl_cache s1) = map_of (openssl_cache s)"
    using r(2) map_of_move_front[OF Some] by simp
  have l: "length (openssl_cache s1) \<le> length (openssl_cache s)"
    using r(2) length_move_front[OF Some] by simp
  have lk: "log_keys s1 = log_keys s" "libressl_cache s1 = libressl_cache s"
    using r(2) by (simp_all add: log_keys_def)
  from j m lk have "logged_cached s1" by (simp add: logged_cached_def)
  with j r(1) m l lk Some show ?thesis by (simp add: logged_cached_def)
next
  case None
  let ?out = "openssl_from_outcome (nth_outcome (openssl_net e) (sent_to openssl_url s))"
  have new: "(k, openssl_url) \<notin> set (log_keys s)"
    using j None by (force simp: logged_cached_def)
  have lk: "log_keys (send k (openssl_request e) s) = log_keys s @ [(k, openssl_url)]"
    by (simp add: log_keys_def send_def openssl_request_def)
  have d: "distinct (log_keys s @ [(k, openssl_url)])"
    using j new by (simp add: logged_cached_def)
  show ?thesis
  proof (cases ?out)
    case (Inl x)
    with c openssl_miss[OF None, of e]
    have "res = Inl x" "s1 = send k (openssl_request e) s" by simp_all
    with lk d show ?thesis by (simp add: send_def)
  next
    case (Inr v)
    with c openssl_miss[OF None, of e]
    have r: "res = Inr v"
      "s1 = (send k (openssl_request e) s)\<lparr>openssl_cache := take 5 ((k, v) # openssl_cache s)\<rparr>"
      by simp_all
    have oc: "openssl_cache s1 = (k, v) # openssl_cache s"
      using r(2) n by simp
    have lc: "libressl_cache s1 = libressl_cache s" "log_keys s1 = log_keys s @ [(k, openssl_url)]"
      using r(2) lk by (simp_all add: send_def log_keys_def)
    have le: "map_of (openssl_cache s) \<subseteq>\<^sub>m map_of (openssl_cache s1)"
      using oc None by (auto simp: map_le_def dom_def)
    have "logged_cached s1"
      using j d oc lc urls_differ None by (auto simp: logged_cached_def)
    with r(1) oc lc d le show ?thesis by simp
  qed
qed

lemma libressl_call:
  assumes c: "determine_latest_libressl e k s = (res, s1)"
    and j: "logged_cached s" and n: "length (libressl_cache s) \<le> 4"
  shows "distinct (log_keys s1) \<and> openssl_cache s1 = openssl_cache s
     \<and> (\<forall>v. res = Inr v \<longrightarrow>
           logged_cached s1 \<and> map_of (libressl_cache s1) k = Some v
           \<and> map_of (libressl_cache s) \<subseteq>\<^sub>m map_of (libressl_cache s1)
           \<and> length (libressl_cache s1) \<le> Suc (length (libressl_cache s)))"
proof (cases "map_of (libressl_cache s) k")
  case (Some v)
  from c libressl_hit[OF Some, of e]
  have r: "res = Inr v"
    "s1 = s\<lparr>libressl_cache := (k, v) # filter (\<lambda>p. fst p \<noteq> k) (libressl_cache s)\<rparr>"
    by simp_all
  have m: "map_of (libressl_cache s1) = map_of (libressl_cache s)"
    using r(2) map_of_move_front[OF Some] by simp
  have l: "length (libressl_cache s1) \<le> length (libressl_cache s)"
    using r(2) length_move_front[OF Some] by simp
  have lk: "log_keys s1 = log_keys s" "openssl_cache s1 = openssl_cache s"
    using r(2) by (simp_all add: log_keys_def)
  from j m lk have "logged_cached s1" by (simp add: logged_cached_def)
  with j r(1) m l lk Some show ?thesis by (simp add: logged_cached_def)
next
  case None
  let ?out = "libressl_from_outcome (nth_outcome (libressl_net e) (sent_to libressl_url s))"
  have new: "(k, libressl_url) \<notin> set (log_keys s)"
    using j None by (force simp: logged_cached_def)
  have lk: "log_keys (send k libressl_request s) = log_keys s @ [(k, libressl_url)]"
    by (simp add: log_keys_def send_def libressl_request_def)
  have d: "distinct (log_keys s @ [(k, libressl_url)])"
    using j new by (simp add: logged_cached_def)
  show ?thesis
  proof (cases ?out)
    case (Inl x)
    with c libressl_miss[OF None, of e]
    have "res = Inl x" "s1 = send k libressl_request s" by simp_all
    with lk d show ?thesis by (simp add: send_def)
  next
    case (Inr v)
    with c libressl_miss[OF None, of e]
    have r: "res = Inr v"
      "s1 = (send k libressl_request s)\<lparr>libressl_cache := take 5 ((k, v) # libressl_cache s)\<rparr>"
      by simp_all
    have oc: "libressl_cache s1 = (k, v) # libressl_cache s"
      using r(2) n by simp
    have lc: "openssl_cache s1 = openssl_cache s" "log_keys s1 = log_keys s @ [(k, libressl_url)]"
      using r(2) lk by (simp_all add: send_def log_keys_def)
    have le: "map_of (libressl_cache s) \<subseteq>\<^sub>m map_of (libressl_cache s1)"
      using oc None by (auto simp: map_le_def dom_def)
    have "logged_cached s1"
      using j d oc lc urls_differ None by (auto simp: logged_cached_def)
    with r(1) oc lc d le show ?thesis by simp
  qed
qed

lemma map_le_Some: "m1 \<subseteq>\<^sub>m m2 \<Longrightarrow> m1 k = Some v \<Longrightarrow> m2 k = Some v"
  by (metis domI map_le_def)

lemma map_of_move_front_upd:
  "map_of c k = Some v \<Longrightarrow> (map_of (filter (\<lambda>p. fst p \<noteq> k) c))(k \<mapsto> v) = map_of c"
  using map_of_move_front[of c k v] by simp

lemma memo_mono:
  assumes "memo s m r"
    and o: "map_of (openssl_cache s) \<subseteq>\<^sub>m map_of (openssl_cache s1)"
    and l: "map_of (libressl_cache s) \<subseteq>\<^sub>m map_of (libressl_cache s1)"
  shows "memo s1 m r"
proof -
  from assms(1) obtain v where
    v: "if wants_libressl m then map_of (libressl_cache s) m = Some v else v = m"
    and r: "if wants_openssl v then map_of (openssl_cache s) v = Some r else r = v"
    by (auto simp: memo_def)
  have "if wants_libressl m then map_of (libressl_cache s1) m = Some v else v = m"
    using v map_le_Some[OF l] by (simp split: if_splits)
  moreover have "if wants_openssl v then map_of (openssl_cache s1) v = Some r else r = v"
    using r map_le_Some[OF o] by (simp split: if_splits)
  ultimately show ?thesis unfolding memo_def by blast
qed

lemma memo_cong:
  "map_of (openssl_cache s1) = map_of (openssl_cache s) \<Longrightarrow>
   map_of (libressl_cache s1) = map_of (libressl_cache s) \<Longrightarrow> memo s1 m r = memo s m r"
  by (simp add: memo_def)

lemma resolve_latest_eq:
  "resolve_latest e m s =
     (case (if wants_libressl m then determine_latest_libressl e m s else (Inr m, s)) of
        (Inl err, s1) \<Rightarrow> (Inl err, s1)
      | (Inr v, s1) \<Rightarrow>
          (if wants_openssl v then determine_latest_openssl e v s1 else (Inr v, s1)))"
  by (simp add: resolve_latest_def wants_libressl_def wants_openssl_def split: prod.splits sum.splits)

lemma wants_latest: "wants_libressl m \<or> wants_openssl m \<Longrightarrow> str_in ''latest'' m"
  by (auto simp: wants_libressl_def wants_openssl_def)

lemma resolve_step:
  assumes c: "resolve_latest e m s = (res, s2)"
    and j: "logged_cached s"
    and no: "length (openssl_cache s) \<le> 4" and nl: "length (libressl_cache s) \<le> 4"
  shows "distinct (log_keys s2)
     \<and> (\<forall>r. res = Inr r \<longrightarrow>
           logged_cached s2 \<and> memo s2 m r
           \<and> map_of (openssl_cache s) \<subseteq>\<^sub>m map_of (openssl_cache s2)
           \<and> map_of (libressl_cache s) \<subseteq>\<^sub>m map_of (libressl_cache s2)
           \<and> length (openssl_cache s2) \<le> length (openssl_cache s) + (if str_in ''latest'' m then 1 else 0)
           \<and> length (libressl_cache s2) \<le> length (libressl_cache s) + (if str_in ''latest'' m then 1 else 0))"
proof -
  obtain r1 s1 where a: "(if wants_libressl m then determine_latest_libressl e m s else (Inr m, s)) = (r1, s1)"
    by (cases "if wants_libressl m then determine_latest_libressl e m s else (Inr m, s)")
  have first: "distinct (log_keys s1) \<and> openssl_cache s1 = openssl_cache s
     \<and> (\<forall>v. r1 = Inr v \<longrightarrow>
           logged_cached s1 \<and> (if wants_libressl m then map_of (libressl_cache s1) m = Some v else v = m)
           \<and> map_of (libressl_cache s) \<subseteq>\<^sub>m map_of (libressl_cache s1)
           \<and> length (libressl_cache s1) \<le> length (libressl_cache s) + (if str_in ''latest'' m then 1 else 0))"
  proof (cases "wants_libressl m")
    case True
    with a have "determine_latest_libressl e m s = (r1, s1)" by simp
    from libressl_call[OF this j nl] True wants_latest[of m] show ?thesis by simp
  next
    case False
    with a j show ?thesis by (auto simp: logged_cached_def)
  qed
  show ?thesis
  proof (cases r1)
    case (Inl x)
    with c a have "res = Inl x" "s2 = s1" by (simp_all add: resolve_latest_eq)
    with first show ?thesis by simp
  next
    case (Inr v)
    with first have f: "logged_cached s1" "openssl_cache s1 = openssl_cache s"
      "if wants_libressl m then map_of (libressl_cache s1) m = Some v else v = m"
      "map_of (libressl_cache s) \<subseteq>\<^sub>m map_of (libressl_cache s1)"
      "length (libressl_cache s1) \<le> length (libressl_cache s) + (if str_in ''latest'' m then 1 else 0)"
      by simp_all
    show ?thesis
    proof (cases "wants_openssl v")
      case False
      with c a Inr have "res = Inr v" "s2 = s1" by (simp_all add: resolve_latest_eq)
      with f False show ?thesis by (auto simp: memo_def logged_cached_def)
    next
      case True
      with c a Inr have d: "determine_latest_openssl e v s1 = (res, s2)"
        by (simp add: resolve_latest_eq)
      have lat: "str_in ''latest'' m"
      proof (cases "wants_libressl m")
        case True then show ?thesis using wants_latest by blast
      next
        case False with f(3) \<open>wants_openssl v\<close> show ?thesis using wants_latest by auto
      qed
      from no f(2) have "length (openssl_cache s1) \<le> 4" by simp
      from openssl_call[OF d f(1) this]
      have g: "distinct (log_keys s2)" "libressl_cache s2 = libressl_cache s1"
        "\<And>r. res = Inr r \<Longrightarrow> logged_cached s2 \<and> map_of (openssl_cache s2) v = Some r
           \<and> map_of (openssl_cache s1) \<subseteq>\<^sub>m map_of (openssl_cache s2)
           \<and> length (openssl_cache s2) \<le> Suc (length (openssl_cache s1))"
        by simp_all
      show ?thesis
      proof (intro conjI allI impI)
        show "distinct (log_keys s2)" by (rule g(1))
      next
        fix r assume r: "res = Inr r"
        from g(3)[OF r] show "logged_cached s2" by simp
        have v1: "if wants_libressl m then map_of (libressl_cache s2) m = Some v else v = m"
          using f(3) g(2) by simp
        have v2: "map_of (openssl_cache s2) v = Some r" using g(3)[OF r] by simp
        show "memo s2 m r" unfolding memo_def using v1 v2 True by (intro exI[of _ v]) simp
        from g(3)[OF r] f(2) show "map_of (openssl_cache s) \<subseteq>\<^sub>m map_of (openssl_cache s2)" by simp
        from f(4) g(2) show "map_of (libressl_cache s) \<subseteq>\<^sub>m map_of (libressl_cache s2)" by simp
        from g(3)[OF r] f(2) lat
        show "length (openssl_cache s2) \<le> length (openssl_cache s) + (if str_in ''latest'' m then 1 else 0)"
          by simp
        from f(5) g(2)
        show "length (libressl_cache s2) \<le> length (libressl_cache s) + (if str_in ''latest'' m then 1 else 0)"
          by simp
      qed
    qed
  qed
qed

lemma resolve_memo:
  assumes "memo s m r"
  shows "\<exists>s'. resolve_latest e m s = (Inr r, s')
     \<and> map_of (openssl_cache s') = map_of (openssl_cache s)
     \<and> map_of (libressl_cache s') = map_of (libressl_cache s)
     \<and> network_log s' = network_log s \<and> matrix s' = matrix s"
proof -
  from assms obtain v where
    v: "if wants_libressl m then map_of (libressl_cache s) m = Some v else v = m"
    and r: "if wants_openssl v then map_of (openssl_cache s) v = Some r else r = v"
    by (auto simp: memo_def)
  define s1 where "s1 = (if wants_libressl m
      then s\<lparr>libressl_cache := (m, v) # filter (\<lambda>p. fst p \<noteq> m) (libressl_cache s)\<rparr> else s)"
  have a: "(if wants_libressl m then determine_latest_libressl e m s else (Inr m, s)) = (Inr v, s1)"
    using v by (auto simp: s1_def libressl_hit)
  have s1: "map_of (libressl_cache s1) = map_of (libressl_cache s)"
    "openssl_cache s1 = openssl_cache s" "network_log s1 = network_log s" "matrix s1 = matrix s"
    using v by (auto simp: s1_def map_of_move_front_upd)
  define s2 where "s2 = (if wants_openssl v
      then s1\<lparr>openssl_cache := (v, r) # filter (\<lambda>p. fst p \<noteq> v) (openssl_cache s1)\<rparr> else s1)"
  have b: "(if wants_openssl v then determine_latest_openssl e v s1 else (Inr v, s1)) = (Inr r, s2)"
    using r s1(2) by (auto simp: s2_def openssl_hit)
  have s2: "map_of (openssl_cache s2) = map_of (openssl_cache s)"
    "map_of (libressl_cache s2) = map_of (libressl_cache s)"
    "network_log s2 = network_log s" "matrix s2 = matrix s"
    using r s1 by (auto simp: s2_def map_of_move_front_upd)
  have "resolve_latest e m s = (Inr r, s2)"
    using a b by (simp add: resolve_latest_eq)
  with s2 show ?thesis by blast
qed

lemma matrix_append_caches [simp]:
  "openssl_cache (matrix_append en s) = openssl_cache s"
  "libressl_cache (matrix_append en s) = libressl_cache s"
  "network_log (matrix_append en s) = network_log s"
  "matrix (matrix_append en s) = matrix s @ [en]"
  "log_keys (matrix_append en s) = log_keys s"
  "logged_cached (matrix_append en s) = logged_cached s"
  "memo (matrix_append en s) = memo s"
  by (simp_all add: matrix_append_def log_keys_def logged_cached_def memo_def fun_eq_iff)

lemma memo_pinned: "\<not> str_in ''latest'' m \<Longrightarrow> memo s m r = (r = m)"
  by (auto simp: memo_def wants_libressl_def wants_openssl_def)

lemma ssl_entries_Cons:
  "ssl_entries osn target cc (m # ms) (r # rs) =
     ssl_entry osn target cc m r # ssl_entries osn target cc ms rs"
  by (simp add: ssl_entries_def)

lemma leg_steps:
  assumes "for_each ms (ssl_step e osn target cc) s = (res, s')"
    and "logged_cached s"
    and "length (openssl_cache s) + latest_count ms \<le> 5"
    and "length (libressl_cache s) + latest_count ms \<le> 5"
  shows "distinct (log_keys s')
     \<and> (res = Inr () \<longrightarrow>
           logged_cached s'
           \<and> map_of (openssl_cache s) \<subseteq>\<^sub>m map_of (openssl_cache s')
           \<and> map_of (libressl_cache s) \<subseteq>\<^sub>m map_of (libressl_cache s')
           \<and> (\<exists>rs. length rs = length ms
                 \<and> matrix s' = matrix s @ ssl_entries osn target cc ms rs
                 \<and> (\<forall>i < length ms. memo s' (ms ! i) (rs ! i))))"
  using assms
proof (induction ms arbitrary: s)
  case Nil
  then show ?case by (simp add: logged_cached_def ssl_entries_def)
next
  case (Cons m ms)
  obtain r s1 where r: "resolve_latest e m s = (r, s1)" by (cases "resolve_latest e m s")
  have step: "distinct (log_keys s1)
     \<and> (\<forall>v. r = Inr v \<longrightarrow>
           logged_cached s1 \<and> memo s1 m v
           \<and> map_of (openssl_cache s) \<subseteq>\<^sub>m map_of (openssl_cache s1)
           \<and> map_of (libressl_cache s) \<subseteq>\<^sub>m map_of (libressl_cache s1)
           \<and> length (openssl_cache s1) + latest_count ms \<le> 5
           \<and> length (libressl_cache s1) + latest_count ms \<le> 5)"
  proof (cases "str_in ''latest'' m")
    case False
    with r have "r = Inr m" "s1 = s" by (simp_all add: resolve_latest_pinned)
    moreover from False have "latest_count (m # ms) = latest_count ms"
      by (simp add: latest_count_def)
    ultimately show ?thesis
      using Cons.prems(2,3,4) False by (simp add: memo_pinned logged_cached_def)
  next
    case True
    then have lc: "latest_count (m # ms) = Suc (latest_count ms)"
      by (simp add: latest_count_def)
    with Cons.prems(3,4) have "length (openssl_cache s) \<le> 4" "length (libressl_cache s) \<le> 4"
      by simp_all
    from resolve_step[OF r Cons.prems(2) this] True lc Cons.prems(3,4)
    show ?thesis by auto
  qed
  show ?case
  proof (cases r)
    case (Inl x)
    with Cons.prems(1) r have "res = Inl x" "s' = s1"
      by (simp_all add: ssl_step_eq[of e osn target cc m s])
    with step show ?thesis by simp
  next
    case (Inr v)
    let ?sa = "matrix_append (ssl_entry osn target cc m v) s1"
    from Cons.prems(1) r Inr
    have f: "for_each ms (ssl_step e osn target cc) ?sa = (res, s')"
      by (simp add: ssl_step_eq[of e osn target cc m s])
    from step Inr have st: "logged_cached s1" "memo s1 m v"
      "map_of (openssl_cache s) \<subseteq>\<^sub>m map_of (openssl_cache s1)"
      "map_of (libressl_cache s) \<subseteq>\<^sub>m map_of (libressl_cache s1)"
      "length (openssl_cache s1) + latest_count ms \<le> 5"
      "length (libressl_cache s1) + latest_count ms \<le> 5"
      by simp_all
    from resolve_latest_frame[OF r] have m1: "matrix s1 = matrix s" by simp
    have ih: "distinct (log_keys s')
     \<and> (res = Inr () \<longrightarrow>
           logged_cached s'
           \<and> map_of (openssl_cache s1) \<subseteq>\<^sub>m map_of (openssl_cache s')
           \<and> map_of (libressl_cache s1) \<subseteq>\<^sub>m map_of (libressl_cache s')
           \<and> (\<exists>rs. length rs = length ms
                 \<and> matrix s' = matrix s @ [ssl_entry osn target cc m v] @ ssl_entries osn target cc ms rs
                 \<and> (\<forall>i < length ms. memo s' (ms ! i) (rs ! i))))"
      using Cons.IH[OF f] st m1 by simp
    show ?thesis
    proof (intro conjI impI)
      show "distinct (log_keys s')" using ih by simp
    next
      assume ok: "res = Inr ()"
      with ih have a: "logged_cached s'"
        "map_of (openssl_cache s1) \<subseteq>\<^sub>m map_of (openssl_cache s')"
        "map_of (libressl_cache s1) \<subseteq>\<^sub>m map_of (libressl_cache s')"
        by simp_all
      from ok ih obtain rs where rs: "length rs = length ms"
        "matrix s' = matrix s @ [ssl_entry osn target cc m v] @ ssl_entries osn target cc ms rs"
        "\<forall>i < length ms. memo s' (ms ! i) (rs ! i)"
        by blast
      show "logged_cached s'" by (rule a(1))
      show "map_of (openssl_cache s) \<subseteq>\<^sub>m map_of (openssl_cache s')"
        using st(3) a(2) by (rule map_le_trans)
      show "map_of (libressl_cache s) \<subseteq>\<^sub>m map_of (libressl_cache s')"
        using st(4) a(3) by (rule map_le_trans)
      have mv: "memo s' m v" using st(2) a(2,3) by (rule memo_mono)
      have "length (v # rs) = length (m # ms)" using rs(1) by simp
      moreover have "matrix s' = matrix s @ ssl_entries osn target cc (m # ms) (v # rs)"
        using rs(2) by (simp add: ssl_entries_Cons)
      moreover have "\<forall>i < length (m # ms). memo s' ((m # ms) ! i) ((v # rs) ! i)"
        using rs(3) mv by (auto simp: nth_Cons split: nat.splits)
      ultimately show "\<exists>rs. length rs = length (m # ms)
                 \<and> matrix s' = matrix s @ ssl_entries osn target cc (m # ms) rs
                 \<and> (\<forall>i < length (m # ms). memo s' ((m # ms) ! i) (rs ! i))"
        by blast
    qed
  qed
qed

lemma leg_memo:
  assumes "length rs = length ms" and "\<forall>i < length ms. memo s (ms ! i) (rs ! i)"
  shows "\<exists>s'. for_each ms (ssl_step e osn target cc) s = (Inr (), s')
     \<and> matrix s' = matrix s @ ssl_entries osn target cc ms rs
     \<and> map_of (openssl_cache s') = map_of (openssl_cache s)
     \<and> map_of (libressl_cache s') = map_of (libressl_cache s)
     \<and> network_log s' = network_log s"
  using assms
proof (induction ms rs arbitrary: s rule: list_induct2')
  case 1
  then show ?case by (simp add: ssl_entries_def)
next
  case (2 r rs)
  then show ?case by simp
next
  case (3 m ms)
  then show ?case by simp
next
  case (4 m ms r rs)
  from 4(3) have "memo s m r" by auto
  from resolve_memo[OF this, of e] obtain s1 where s1:
    "resolve_latest e m s = (Inr r, s1)"
    "map_of (openssl_cache s1) = map_of (openssl_cache s)"
    "map_of (libressl_cache s1) = map_of (libressl_cache s)"
    "network_log s1 = network_log s" "matrix s1 = matrix s"
    by blast
  let ?sa = "matrix_append (ssl_entry osn target cc m r) s1"
  have eq: "memo ?sa = memo s"
    using s1(2,3) by (simp add: fun_eq_iff memo_def)
  have "\<forall>i < length ms. memo ?sa (ms ! i) (rs ! i)"
    using 4(3) eq by auto
  with 4(1)[of ?sa] 4(2) obtain s' where s':
    "for_each ms (ssl_step e osn target cc) ?sa = (Inr (), s')"
    "matrix s' = matrix ?sa @ ssl_entries osn target cc ms rs"
    "map_of (openssl_cache s') = map_of (openssl_cache ?sa)"
    "map_of (libressl_cache s') = map_of (libressl_cache ?sa)"
    "network_log s' = network_log ?sa"
    by auto
  have "for_each (m # ms) (ssl_step e osn target cc) s = (Inr (), s')"
    using s1(1) s'(1) by (simp add: ssl_step_eq[of e osn target cc m s])
  with s' s1 show ?case by (simp add: ssl_entries_Cons)
qed

lemma print_stdout_caches [simp]:
  "openssl_cache (print_stdout txt s) = openssl_cache s"
  "libressl_cache (print_stdout txt s) = libressl_cache s"
  "network_log (print_stdout txt s) = network_log s"
  "matrix (print_stdout txt s) = matrix s"
  "log_keys (print_stdout txt s) = log_keys s"
  "logged_cached (print_stdout txt s) = logged_cached s"
  "memo (print_stdout txt s) = memo s"
  by (simp_all add: print_stdout_def log_keys_def logged_cached_def memo_def fun_eq_iff)

lemma write_github_output_caches:
  "write_github_output e s = (r, s') \<Longrightarrow>
     openssl_cache s' = openssl_cache s \<and> libressl_cache s' = libressl_cache s
     \<and> network_log s' = network_log s"
  by (auto simp: write_github_output_def split: option.splits if_splits)

lemma latest_count_ssl_versions: "latest_count (ssl_versions ref_name) \<le> 2"
  by (simp add: latest_count_def ssl_versions_def Let_def)

lemma linux_step_eq:
  "linux_step e ref_name osn target cc s =
     for_each (ssl_versions ref_name) (ssl_step e osn target cc)
       (s\<lparr>matrix := matrix s @ fixed_entries osn target cc\<rparr>)"
  by (simp add: linux_step_def Let_def compression_step_def matrix_append_def fixed_entries_def
        clean_compression_zlib)

lemma with_matrix_caches [simp]:
  "logged_cached (s\<lparr>matrix := m\<rparr>) = logged_cached s"
  "memo (s\<lparr>matrix := m\<rparr>) = memo s"
  "log_keys (s\<lparr>matrix := m\<rparr>) = log_keys s"
  by (simp_all add: log_keys_def logged_cached_def memo_def fun_eq_iff)

lemma memo_eq:
  "map_of (openssl_cache s1) = map_of (openssl_cache s) \<Longrightarrow>
   map_of (libressl_cache s1) = map_of (libressl_cache s) \<Longrightarrow> memo s1 = memo s"
  by (simp add: memo_def fun_eq_iff)

lemma generate_trace:
  assumes g: "generate e ref_name s = (res, s')"
    and j: "logged_cached s"
    and no: "length (openssl_cache s) \<le> 3" and nl: "length (libressl_cache s) \<le> 3"
  shows "distinct (log_keys s')
     \<and> (res = Inr () \<longrightarrow>
          (\<exists>rs. length rs = length (ssl_versions ref_name)
             \<and> matrix s' = matrix s
                  @ linux_leg (linux_os ref_name) ''gcc'' (ssl_versions ref_name) rs
                  @ linux_leg (linux_os ref_name) ''clang'' (ssl_versions ref_name) rs
                  @ [no_features (macos_os ref_name) ''osx'' ''clang'']
             \<and> (\<forall>i < length (ssl_versions ref_name). memo s' (ssl_versions ref_name ! i) (rs ! i))))"
proof -
  let ?ms = "ssl_versions ref_name"
  let ?osn = "linux_os ref_name"
  let ?s1 = "(print_stdout (banner ref_name) s)\<lparr>matrix := matrix s @ fixed_entries ?osn ''linux-glibc'' ''gcc''\<rparr>"
  obtain r2 s2 where a: "for_each ?ms (ssl_step e ?osn ''linux-glibc'' ''gcc'') ?s1 = (r2, s2)"
    by (cases "for_each ?ms (ssl_step e ?osn ''linux-glibc'' ''gcc'') ?s1")
  have b1: "length (openssl_cache ?s1) + latest_count ?ms \<le> 5"
    "length (libressl_cache ?s1) + latest_count ?ms \<le> 5"
    using no nl latest_count_ssl_versions[of ref_name] by simp_all
  have j1: "logged_cached ?s1" using j by simp
  note gcc = leg_steps[OF a j1 b1]
  show ?thesis
  proof (cases r2)
    case (Inl x)
    with g a have "res = Inl x" "s' = s2"
      by (simp_all add: generate_def Let_def linux_step_eq)
    with gcc show ?thesis by simp
  next
    case (Inr u)
    with gcc obtain rs where rs: "length rs = length ?ms"
      "matrix s2 = matrix s @ fixed_entries ?osn ''linux-glibc'' ''gcc''
          @ ssl_entries ?osn ''linux-glibc'' ''gcc'' ?ms rs"
      "\<forall>i < length ?ms. memo s2 (?ms ! i) (rs ! i)"
      and d2: "distinct (log_keys s2)"
      by auto
    let ?s2 = "s2\<lparr>matrix := matrix s2 @ fixed_entries ?osn ''linux-glibc'' ''clang''\<rparr>"
    have "\<forall>i < length ?ms. memo ?s2 (?ms ! i) (rs ! i)" using rs(3) by simp
    from leg_memo[OF rs(1) this, of e ?osn "''linux-glibc''" "''clang''"]
    obtain s3 where s3:
      "for_each ?ms (ssl_step e ?osn ''linux-glibc'' ''clang'') ?s2 = (Inr (), s3)"
      "matrix s3 = matrix ?s2 @ ssl_entries ?osn ''linux-glibc'' ''clang'' ?ms rs"
      "map_of (openssl_cache s3) = map_of (openssl_cache ?s2)"
      "map_of (libressl_cache s3) = map_of (libressl_cache ?s2)"
      "network_log s3 = network_log ?s2"
      by blast
    let ?s4 = "matrix_append (no_features (macos_os ref_name) ''osx'' ''clang'') s3"
    let ?s5 = "print_stdout (json_dumps (Some 4) True (matrix_json (matrix ?s4))) ?s4"
    have w: "write_github_output e ?s5 = (res, s')"
      using g a Inr s3(1) by (simp add: generate_def Let_def linux_step_eq macos_step_def)
    note fr = write_github_output_frame[OF w] write_github_output_caches[OF w]
    have lk: "log_keys s' = log_keys s2"
      using fr s3(5) by (simp add: log_keys_def)
    have me: "memo s' = memo s2"
      using fr s3(3,4) by (intro memo_eq) simp_all
    have m: "matrix s' = matrix s
                  @ linux_leg ?osn ''gcc'' ?ms rs @ linux_leg ?osn ''clang'' ?ms rs
                  @ [no_features (macos_os ref_name) ''osx'' ''clang'']"
      using fr rs(2) s3(2) by (simp add: linux_leg_def)
    from lk d2 me m rs(1,3) show ?thesis by auto
  qed
qed

lemma initial_caches:
  "logged_cached initial" "length (openssl_cache initial) \<le> 3"
  "length (libressl_cache initial) \<le> 3" "matrix initial = []" "stdout initial = []"
  "stderr initial = []"
  by (simp_all add: initial_def logged_cached_def log_keys_def)

lemma run_result:
  assumes "run e prog [ref_name] = (0, fin)"
  shows "\<exists>rs. length rs = length (ssl_versions ref_name)
     \<and> matrix fin = linux_leg (linux_os ref_name) ''gcc'' (ssl_versions ref_name) rs
          @ linux_leg (linux_os ref_name) ''clang'' (ssl_versions ref_name) rs
          @ [no_features (macos_os ref_name) ''osx'' ''clang'']
     \<and> (\<forall>i < length (ssl_versions ref_name).
           \<not> str_in ''latest'' (ssl_versions ref_name ! i) \<longrightarrow> rs ! i = ssl_versions ref_name ! i)
     \<and> stdout fin = banner ref_name @ [newline]
          @ json_dumps (Some 4) True (matrix_json (matrix fin)) @ [newline]
     \<and> stderr fin = []"
proof -
  from assms have g: "generate e ref_name initial = (Inr (), fin)" by (simp add: run_ok_iff)
  from generate_trace[OF g initial_caches(1,2,3)] obtain rs where rs:
    "length rs = length (ssl_versions ref_name)"
    "matrix fin = linux_leg (linux_os ref_name) ''gcc'' (ssl_versions ref_name) rs
          @ linux_leg (linux_os ref_name) ''clang'' (ssl_versions ref_name) rs
          @ [no_features (macos_os ref_name) ''osx'' ''clang'']"
    "\<forall>i < length (ssl_versions ref_name). memo fin (ssl_versions ref_name ! i) (rs ! i)"
    by (auto simp: initial_caches)
  from generate_result[OF g] have out:
    "stdout fin = banner ref_name @ [newline]
          @ json_dumps (Some 4) True (matrix_json (matrix fin)) @ [newline]"
    "stderr fin = []"
    by (auto simp: initial_caches)
  from rs(3) have "\<forall>i < length (ssl_versions ref_name).
           \<not> str_in ''latest'' (ssl_versions ref_name ! i) \<longrightarrow> rs ! i = ssl_versions ref_name ! i"
    by (auto simp: memo_pinned)
  with rs(1,2) out show ?thesis by blast
qed

section \<open>Picking the entries of one compiler\<close>

lemma leg_of_linux_leg:
  "leg_of cc (linux_leg osn cc' ms rs) = (if cc' = cc then linux_leg osn cc' ms rs else [])"
  by (auto simp: leg_of_def linux_leg_def fixed_entries_def no_features_def ssl_entries_def
        ssl_entry_def filter_empty_conv)

lemma leg_of_append: "leg_of cc (xs @ ys) = leg_of cc xs @ leg_of cc ys"
  by (simp add: leg_of_def)

lemma leg_of_macos: "leg_of cc [no_features osn ''osx'' cc'] = []"
  by (simp add: leg_of_def no_features_def)

lemma leg_of_matrix:
  "cc \<in> {''gcc'', ''clang''} \<Longrightarrow>
   leg_of cc (linux_leg osn ''gcc'' ms rs @ linux_leg osn ''clang'' ms rs
              @ [no_features osn' ''osx'' ''clang'']) = linux_leg osn cc ms rs"
  by (auto simp: leg_of_append leg_of_linux_leg leg_of_macos)

lemma map_name_linux_leg:
  "length rs = length ms \<Longrightarrow>
   map name (linux_leg osn cc ms rs) =
     [osn @ '', '' @ cc @ '', no features'', osn @ '', '' @ cc @ '', all features'',
      osn @ '', '' @ cc @ '', ASAN, all features'', osn @ '', '' @ cc @ '', gz=zlib=1'']
     @ map (\<lambda>r. osn @ '', '' @ cc @ '', ssl='' @ clean_ssl r) rs"
proof -
  assume l: "length rs = length ms"
  have "map name (ssl_entries osn ''linux-glibc'' cc ms rs)
      = map (\<lambda>r. osn @ '', '' @ cc @ '', ssl='' @ clean_ssl r) (map snd (zip ms rs))"
    by (simp add: ssl_entries_def ssl_entry_def comp_def)
  with l show ?thesis
    by (simp add: linux_leg_def fixed_entries_def no_features_def)
qed

lemma map_ssl_linux_leg:
  "length rs = length ms \<Longrightarrow>
   map ssl (linux_leg osn cc ms rs) = [None, None, None, None] @ map Some rs"
proof -
  assume l: "length rs = length ms"
  have "map ssl (ssl_entries osn ''linux-glibc'' cc ms rs) = map Some (map snd (zip ms rs))"
    by (simp add: ssl_entries_def ssl_entry_def comp_def)
  with l show ?thesis
    by (simp add: linux_leg_def fixed_entries_def no_features_def)
qed

lemma length_ssl_versions:
  "length (ssl_versions ref_name) = (if str_in ''haproxy-'' ref_name then 4 else 6)"
  by (simp add: ssl_versions_def Let_def)

section \<open>Runs that are known to finish\<close>

lemma write_github_output_ok:
  "GITHUB_OUTPUT e = None \<or> output_writable e \<Longrightarrow> \<exists>s'. write_github_output e s = (Inr (), s')"
  by (auto simp: write_github_output_def split: option.splits)

lemma generate_after_gcc:
  assumes a: "for_each (ssl_versions ref_name) (ssl_step e (linux_os ref_name) ''linux-glibc'' ''gcc'')
        ((print_stdout (banner ref_name) s)
           \<lparr>matrix := matrix s @ fixed_entries (linux_os ref_name) ''linux-glibc'' ''gcc''\<rparr>)
      = (Inr (), s2)"
    and l: "length rs = length (ssl_versions ref_name)"
    and m: "\<forall>i < length (ssl_versions ref_name). memo s2 (ssl_versions ref_name ! i) (rs ! i)"
    and w: "GITHUB_OUTPUT e = None \<or> output_writable e"
  shows "\<exists>s'. generate e ref_name s = (Inr (), s') \<and> network_log s' = network_log s2
     \<and> matrix s' = matrix s2
          @ fixed_entries (linux_os ref_name) ''linux-glibc'' ''clang''
          @ ssl_entries (linux_os ref_name) ''linux-glibc'' ''clang'' (ssl_versions ref_name) rs
          @ [no_features (macos_os ref_name) ''osx'' ''clang'']"
proof -
  let ?ms = "ssl_versions ref_name"
  let ?osn = "linux_os ref_name"
  let ?s2 = "s2\<lparr>matrix := matrix s2 @ fixed_entries ?osn ''linux-glibc'' ''clang''\<rparr>"
  have "\<forall>i < length ?ms. memo ?s2 (?ms ! i) (rs ! i)" using m by simp
  from leg_memo[OF l this, of e ?osn "''linux-glibc''" "''clang''"]
  obtain s3 where s3:
    "for_each ?ms (ssl_step e ?osn ''linux-glibc'' ''clang'') ?s2 = (Inr (), s3)"
    "matrix s3 = matrix ?s2 @ ssl_entries ?osn ''linux-glibc'' ''clang'' ?ms rs"
    "network_log s3 = network_log ?s2"
    by blast
  let ?s4 = "matrix_append (no_features (macos_os ref_name) ''osx'' ''clang'') s3"
  let ?s5 = "print_stdout (json_dumps (Some 4) True (matrix_json (matrix ?s4))) ?s4"
  from write_github_output_ok[OF w, of ?s5] obtain s' where
    s': "write_github_output e ?s5 = (Inr (), s')" by blast
  have g: "generate e ref_name s = (Inr (), s')"
    using a s3(1) s' by (simp add: generate_def Let_def linux_step_eq macos_step_def)
  note fr = write_github_output_frame[OF s'] write_github_output_caches[OF s']
  have "network_log s' = network_log s2" using fr s3(3) by simp
  moreover have "matrix s' = matrix s2
          @ fixed_entries ?osn ''linux-glibc'' ''clang''
          @ ssl_entries ?osn ''linux-glibc'' ''clang'' ?ms rs
          @ [no_features (macos_os ref_name) ''osx'' ''clang'']"
    using fr s3(2) by simp
  ultimately show ?thesis using g by blast
qed

lemma generate_memo:
  assumes l: "length rs = length (ssl_versions ref_name)"
    and m: "\<forall>i < length (ssl_versions ref_name). memo s (ssl_versions ref_name ! i) (rs ! i)"
    and w: "GITHUB_OUTPUT e = None \<or> output_writable e"
  shows "\<exists>s'. generate e ref_name s = (Inr (), s') \<and> network_log s' = network_log s
     \<and> matrix s' = matrix s
          @ linux_leg (linux_os ref_name) ''gcc'' (ssl_versions ref_name) rs
          @ linux_leg (linux_os ref_name) ''clang'' (ssl_versions ref_name) rs
          @ [no_features (macos_os ref_name) ''osx'' ''clang'']"
proof -
  let ?ms = "ssl_versions ref_name"
  let ?osn = "linux_os ref_name"
  let ?s1 = "(print_stdout (banner ref_name) s)\<lparr>matrix := matrix s @ fixed_entries ?osn ''linux-glibc'' ''gcc''\<rparr>"
  have "\<forall>i < length ?ms. memo ?s1 (?ms ! i) (rs ! i)" using m by simp
  from leg_memo[OF l this, of e ?osn "''linux-glibc''" "''gcc''"]
  obtain s2 where s2:
    "for_each ?ms (ssl_step e ?osn ''linux-glibc'' ''gcc'') ?s1 = (Inr (), s2)"
    "matrix s2 = matrix ?s1 @ ssl_entries ?osn ''linux-glibc'' ''gcc'' ?ms rs"
    "map_of (openssl_cache s2) = map_of (openssl_cache ?s1)"
    "map_of (libressl_cache s2) = map_of (libressl_cache ?s1)"
    "network_log s2 = network_log ?s1"
    by blast
  have "memo s2 = memo s" using s2(3,4) by (simp add: memo_def fun_eq_iff)
  with m have "\<forall>i < length ?ms. memo s2 (?ms ! i) (rs ! i)" by simp
  from generate_after_gcc[OF s2(1) l this w] s2(2,5) show ?thesis
    by (auto simp: linux_leg_def)
qed

lemma stable_run:
  assumes st: "str_in ''haproxy-'' ref_name" and w: "GITHUB_OUTPUT e = None \<or> output_writable e"
  shows "\<exists>fin. run e prog [ref_name] = (0, fin) \<and> network_log fin = []
     \<and> matrix fin =
          linux_leg ''ubuntu-22.04'' ''gcc'' (ssl_versions ref_name) (ssl_versions ref_name)
          @ linux_leg ''ubuntu-22.04'' ''clang'' (ssl_versions ref_name) (ssl_versions ref_name)
          @ [no_features ''macos-12'' ''osx'' ''clang'']"
proof -
  have "\<forall>i < length (ssl_versions ref_name).
          memo initial (ssl_versions ref_name ! i) (ssl_versions ref_name ! i)"
    using st by (simp add: ssl_versions_stable memo_pinned nth_Cons split: nat.splits)
  from generate_memo[OF refl this w] obtain fin where
    "generate e ref_name initial = (Inr (), fin)" "network_log fin = network_log initial"
    "matrix fin = matrix initial
          @ linux_leg (linux_os ref_name) ''gcc'' (ssl_versions ref_name) (ssl_versions ref_name)
          @ linux_leg (linux_os ref_name) ''clang'' (ssl_versions ref_name) (ssl_versions ref_name)
          @ [no_features (macos_os ref_name) ''osx'' ''clang'']"
    by blast
  with st show ?thesis
    by (simp add: run_ok_iff initial_def linux_os_def macos_os_def)
qed

lemma sent_to_simps [simp]:
  "sent_to u (s\<lparr>matrix := m\<rparr>) = sent_to u s"
  "sent_to u (matrix_append en s) = sent_to u s"
  "sent_to u (print_stdout txt s) = sent_to u s"
  by (simp_all add: sent_to_def matrix_append_def print_stdout_def)

lemma wants_markers [simp]:
  "\<not> wants_libressl ''OPENSSL_VERSION=latest''" "wants_openssl ''OPENSSL_VERSION=latest''"
  "wants_libressl ''LIBRESSL_VERSION=latest''"
  by (simp_all add: wants_libressl_def wants_openssl_def)

lemma dev_first_leg:
  assumes dev: "\<not> str_in ''haproxy-'' ref_name"
    and c: "openssl_cache s = []" "libressl_cache s = []" "network_log s = []"
    and o: "openssl_from_outcome (nth_outcome (openssl_net e) 0) = Inr v1"
    and l: "libressl_from_outcome (nth_outcome (libressl_net e) 0) = Inr v2"
    and nx: "\<not> wants_openssl v2"
  shows "\<exists>s'. for_each (ssl_versions ref_name) (ssl_step e osn target cc) s = (Inr (), s')
     \<and> matrix s' = matrix s @ ssl_entries osn target cc (ssl_versions ref_name)
          [''stock'', ''OPENSSL_VERSION=1.0.2u'', ''OPENSSL_VERSION=1.1.1s'', ''QUICTLS=yes'', v1, v2]
     \<and> openssl_cache s' = [(''OPENSSL_VERSION=latest'', v1)]
     \<and> libressl_cache s' = [(''LIBRESSL_VERSION=latest'', v2)]
     \<and> network_log s' = [(''OPENSSL_VERSION=latest'', openssl_request e),
                           (''LIBRESSL_VERSION=latest'', libressl_request)]"
proof -
  let ?p = "[''stock'', ''OPENSSL_VERSION=1.0.2u'', ''OPENSSL_VERSION=1.1.1s'', ''QUICTLS=yes'']"
  let ?s4 = "s\<lparr>matrix := matrix s @ ssl_entries osn target cc ?p ?p\<rparr>"
  let ?ko = "''OPENSSL_VERSION=latest''"
  let ?kl = "''LIBRESSL_VERSION=latest''"
  have ro: "resolve_latest e ?ko ?s4 =
      (Inr v1, (send ?ko (openssl_request e) ?s4)\<lparr>openssl_cache := [(?ko, v1)]\<rparr>)"
    using c o by (simp add: resolve_latest_eq openssl_miss sent_to_def)
  let ?s5 = "matrix_append (ssl_entry osn target cc ?ko v1)
      ((send ?ko (openssl_request e) ?s4)\<lparr>openssl_cache := [(?ko, v1)]\<rparr>)"
  have n5: "sent_to libressl_url ?s5 = 0"
    using c urls_differ by (simp add: sent_to_def send_def openssl_request_def)
  have rl: "resolve_latest e ?kl ?s5 =
      (Inr v2, (send ?kl libressl_request ?s5)\<lparr>libressl_cache := [(?kl, v2)]\<rparr>)"
    using c l nx n5 by (simp add: resolve_latest_eq libressl_miss send_def)
  let ?s6 = "matrix_append (ssl_entry osn target cc ?kl v2)
      ((send ?kl libressl_request ?s5)\<lparr>libressl_cache := [(?kl, v2)]\<rparr>)"
  have "for_each (ssl_versions ref_name) (ssl_step e osn target cc) s = (Inr (), ?s6)"
    using ro rl
    by (simp add: ssl_versions_dev[OF dev] ssl_step_eq resolve_latest_pinned matrix_append_def
          ssl_entries_def)
  moreover have "matrix ?s6 = matrix s @ ssl_entries osn target cc (ssl_versions ref_name)
          [''stock'', ''OPENSSL_VERSION=1.0.2u'', ''OPENSSL_VERSION=1.1.1s'', ''QUICTLS=yes'', v1, v2]"
    by (simp add: ssl_versions_dev[OF dev] ssl_entries_def send_def matrix_append_def)
  moreover have "openssl_cache ?s6 = [(?ko, v1)]" "libressl_cache ?s6 = [(?kl, v2)]"
    "network_log ?s6 = [(?ko, openssl_request e), (?kl, libressl_request)]"
    using c by (simp_all add: send_def matrix_append_def)
  ultimately show ?thesis by blast
qed

lemma dev_run_ok:
  assumes dev: "\<not> str_in ''haproxy-'' ref_name"
    and o: "openssl_from_outcome (nth_outcome (openssl_net e) 0) = Inr v1"
    and l: "libressl_from_outcome (nth_outcome (libressl_net e) 0) = Inr v2"
    and nx: "\<not> wants_openssl v2"
    and w: "GITHUB_OUTPUT e = None \<or> output_writable e"
  shows "\<exists>fin. run e prog [ref_name] = (0, fin)
     \<and> network_log fin = [(''OPENSSL_VERSION=latest'', openssl_request e),
                            (''LIBRESSL_VERSION=latest'', libressl_request)]
     \<and> matrix fin =
          linux_leg ''ubuntu-latest'' ''gcc'' (ssl_versions ref_name)
            [''stock'', ''OPENSSL_VERSION=1.0.2u'', ''OPENSSL_VERSION=1.1.1s'', ''QUICTLS=yes'', v1, v2]
          @ linux_leg ''ubuntu-latest'' ''clang'' (ssl_versions ref_name)
            [''stock'', ''OPENSSL_VERSION=1.0.2u'', ''OPENSSL_VERSION=1.1.1s'', ''QUICTLS=yes'', v1, v2]
          @ [no_features ''macos-latest'' ''osx'' ''clang'']"
proof -
  let ?rs = "[''stock'', ''OPENSSL_VERSION=1.0.2u'', ''OPENSSL_VERSION=1.1.1s'', ''QUICTLS=yes'', v1, v2]"
  let ?osn = "linux_os ref_name"
  let ?s1 = "(print_stdout (banner ref_name) initial)
      \<lparr>matrix := matrix initial @ fixed_entries ?osn ''linux-glibc'' ''gcc''\<rparr>"
  have c: "openssl_cache ?s1 = []" "libressl_cache ?s1 = []" "network_log ?s1 = []"
    by (simp_all add: initial_def)
  from dev_first_leg[OF dev c o l nx, of ?osn "''linux-glibc''" "''gcc''"]
  obtain s2 where s2:
    "for_each (ssl_versions ref_name) (ssl_step e ?osn ''linux-glibc'' ''gcc'') ?s1 = (Inr (), s2)"
    "matrix s2 = matrix ?s1 @ ssl_entries ?osn ''linux-glibc'' ''gcc'' (ssl_versions ref_name) ?rs"
    "openssl_cache s2 = [(''OPENSSL_VERSION=latest'', v1)]"
    "libressl_cache s2 = [(''LIBRESSL_VERSION=latest'', v2)]"
    "network_log s2 = [(''OPENSSL_VERSION=latest'', openssl_request e),
                        (''LIBRESSL_VERSION=latest'', libressl_request)]"
    by blast
  have len: "length ?rs = length (ssl_versions ref_name)"
    by (simp add: ssl_versions_dev[OF dev])
  have m: "\<forall>i < length (ssl_versions ref_name). memo s2 (ssl_versions ref_name ! i) (?rs ! i)"
    using s2(3,4) nx
    by (simp add: ssl_versions_dev[OF dev] nth_Cons memo_pinned split: nat.splits)
       (simp add: memo_def)
  from generate_after_gcc[OF s2(1) len m w] s2(2,5) dev show ?thesis
    by (auto simp: run_ok_iff linux_leg_def linux_os_def macos_os_def initial_def)
qed

lemma clean_ssl_pinned:
  "map clean_ssl [''stock'', ''OPENSSL_VERSION=1.0.2u'', ''OPENSSL_VERSION=1.1.1s'', ''QUICTLS=yes'']
     = [''stock'', ''openssl=1.0.2u'', ''openssl=1.1.1s'', ''quictls=yes'']"
  by code_simp

lemma count_ssl_named:
  "length (filter ssl_named xs) = length (filter (str_in '', ssl='') (map name xs))"
  by (induction xs) (simp_all add: ssl_named_def)

lemma demo_openssl:
  "openssl_from_outcome (nth_outcome (openssl_net demo_env) 0) = Inr ''OPENSSL_VERSION=3.2.0''"
  by (simp add: demo_env_def nth_outcome_def openssl_from_outcome_def)

lemma demo_libressl:
  "libressl_from_outcome (nth_outcome (libressl_net demo_env) 0) = Inr ''LIBRESSL_VERSION=3.8.2''"
  by (simp add: demo_env_def nth_outcome_def libressl_from_outcome_def re_split_def match_here_def
        alt_libressl_def alt_asc_def newline_def)

lemma demo_run:
  "\<exists>fin. run demo_env ''matrix.py'' [''master''] = (0, fin)
     \<and> network_log fin = [(''OPENSSL_VERSION=latest'', openssl_request demo_env),
                            (''LIBRESSL_VERSION=latest'', libressl_request)]
     \<and> matrix fin =
          linux_leg ''ubuntu-latest'' ''gcc'' (ssl_versions ''master'')
            [''stock'', ''OPENSSL_VERSION=1.0.2u'', ''OPENSSL_VERSION=1.1.1s'', ''QUICTLS=yes'',
             ''OPENSSL_VERSION=3.2.0'', ''LIBRESSL_VERSION=3.8.2'']
          @ linux_leg ''ubuntu-latest'' ''clang'' (ssl_versions ''master'')
            [''stock'', ''OPENSSL_VERSION=1.0.2u'', ''OPENSSL_VERSION=1.1.1s'', ''QUICTLS=yes'',
             ''OPENSSL_VERSION=3.2.0'', ''LIBRESSL_VERSION=3.8.2'']
          @ [no_features ''macos-latest'' ''osx'' ''clang'']"
proof -
  have dev: "\<not> str_in ''haproxy-'' ''master''" by simp
  have nx: "\<not> wants_openssl ''LIBRESSL_VERSION=3.8.2''" by (simp add: wants_openssl_def)
  have w: "GITHUB_OUTPUT demo_env = None \<or> output_writable demo_env" by (simp add: demo_env_def)
  from dev_run_ok[OF dev demo_openssl demo_libressl nx w] show ?thesis .
qed

lemma demo_run_ok: "run demo_env ''matrix.py'' [''master''] = (0, snd (run demo_env ''matrix.py'' [''master'']))"
  using demo_run by auto

lemma offline_run_ok:
  "run offline_env ''matrix.py'' [''haproxy-2.8''] = (0, snd (run offline_env ''matrix.py'' [''haproxy-2.8'']))"
proof -
  have st: "str_in ''haproxy-'' ''haproxy-2.8''" by simp
  have w: "GITHUB_OUTPUT offline_env = None \<or> output_writable offline_env"
    by (simp add: offline_env_def)
  from stable_run[OF st w, of "''matrix.py''"] show ?thesis by auto
qed

section \<open>The entries of the Linux leg (C2)\<close>

text \<open>
  C2, as stated: for every compiler the Linux leg has one "no features", one "all
  features", one "ASAN, all features" and one "gz=zlib" entry, then exactly 5 (stable
  branch) or 7 (development branch) "ssl=" entries.  On the stable ref \<open>haproxy-2.8\<close> the
  gcc leg has 4 entries named \<open>ssl=\<close>, not 5: the candidate list holds four markers,
  \<open>BORINGSSL=yes\<close> being commented out.
\<close>

theorem C2_counterexample:
  "length (filter ssl_named (leg_of ''gcc'' (matrix (snd
      (run \<lparr>GITHUB_TOKEN = None, GITHUB_OUTPUT = None, output_writable = True,
            openssl_net = [], libressl_net = []\<rparr> ''matrix.py'' [''haproxy-2.8'']))))) \<noteq> 5"
proof -
  let ?e = "\<lparr>GITHUB_TOKEN = None, GITHUB_OUTPUT = None, output_writable = True,
            openssl_net = [], libressl_net = []\<rparr>"
  let ?ms = "[''stock'', ''OPENSSL_VERSION=1.0.2u'', ''OPENSSL_VERSION=1.1.1s'', ''QUICTLS=yes'']"
  have st: "str_in ''haproxy-'' ''haproxy-2.8''" by simp
  from stable_run[OF st, of ?e "''matrix.py''"] obtain fin where fin:
    "run ?e ''matrix.py'' [''haproxy-2.8''] = (0, fin)"
    "matrix fin = linux_leg ''ubuntu-22.04'' ''gcc'' ?ms ?ms
          @ linux_leg ''ubuntu-22.04'' ''clang'' ?ms ?ms @ [no_features ''macos-12'' ''osx'' ''clang'']"
    by (auto simp: ssl_versions_stable[OF st])
  have "leg_of ''gcc'' (matrix fin) = linux_leg ''ubuntu-22.04'' ''gcc'' ?ms ?ms"
    using fin(2) leg_of_matrix[of "''gcc''"] by simp
  then have "map name (leg_of ''gcc'' (matrix fin)) =
     [''ubuntu-22.04, gcc, no features'', ''ubuntu-22.04, gcc, all features'',
      ''ubuntu-22.04, gcc, ASAN, all features'', ''ubuntu-22.04, gcc, gz=zlib=1'',
      ''ubuntu-22.04, gcc, ssl=stock'', ''ubuntu-22.04, gcc, ssl=openssl=1.0.2u'',
      ''ubuntu-22.04, gcc, ssl=openssl=1.1.1s'', ''ubuntu-22.04, gcc, ssl=quictls=yes'']"
    using map_name_linux_leg[of ?ms ?ms "''ubuntu-22.04''" "''gcc''"] clean_ssl_pinned by simp
  then have "length (filter ssl_named (leg_of ''gcc'' (matrix fin))) = 4"
    by (simp add: count_ssl_named)
  with fin(1) show ?thesis by simp
qed

text \<open>
  C2, amended: in every run that finishes, the Linux entries of each compiler in
  \<open>{gcc, clang}\<close> are, in this order, "no features", "all features", "ASAN, all
  features", the compression entry (named \<open>gz=zlib=1\<close>), and then exactly 4 (ref name
  containing \<open>haproxy-\<close>) or 6 (any other ref name) entries named \<open>ssl=\<close> after their
  resolved marker; only these carry an \<open>ssl\<close> field.
\<close>

theorem C2_linux_leg:
  assumes "run e prog [ref_name] = (0, fin)" and "cc \<in> {''gcc'', ''clang''}"
  shows "\<exists>rs. length rs = (if str_in ''haproxy-'' ref_name then 4 else 6)
     \<and> map name (leg_of cc (matrix fin)) =
         [linux_os ref_name @ '', '' @ cc @ '', no features'',
          linux_os ref_name @ '', '' @ cc @ '', all features'',
          linux_os ref_name @ '', '' @ cc @ '', ASAN, all features'',
          linux_os ref_name @ '', '' @ cc @ '', gz=zlib=1'']
         @ map (\<lambda>r. linux_os ref_name @ '', '' @ cc @ '', ssl='' @ clean_ssl r) rs
     \<and> map ssl (leg_of cc (matrix fin)) = [None, None, None, None] @ map Some rs"
proof -
  from run_result[OF assms(1)] obtain rs where rs:
    "length rs = length (ssl_versions ref_name)"
    "matrix fin = linux_leg (linux_os ref_name) ''gcc'' (ssl_versions ref_name) rs
          @ linux_leg (linux_os ref_name) ''clang'' (ssl_versions ref_name) rs
          @ [no_features (macos_os ref_name) ''osx'' ''clang'']"
    by blast
  have leg: "leg_of cc (matrix fin) = linux_leg (linux_os ref_name) cc (ssl_versions ref_name) rs"
    using rs(2) leg_of_matrix[OF assms(2)] by simp
  have "length rs = (if str_in ''haproxy-'' ref_name then 4 else 6)"
    using rs(1) by (simp add: length_ssl_versions)
  with leg map_name_linux_leg[OF rs(1)] map_ssl_linux_leg[OF rs(1)] show ?thesis
    by (intro exI[of _ rs]) simp
qed

theorem C2_linux_leg_witness:
  "run demo_env ''matrix.py'' [''master''] = (0, snd (run demo_env ''matrix.py'' [''master'']))
   \<and> ''clang'' \<in> {''gcc'', ''clang''}
   \<and> length (leg_of ''clang'' (matrix (snd (run demo_env ''matrix.py'' [''master''])))) = 10
   \<and> take 4 (map name (leg_of ''clang'' (matrix (snd (run demo_env ''matrix.py'' [''master''])))))
       = [''ubuntu-latest, clang, no features'', ''ubuntu-latest, clang, all features'',
          ''ubuntu-latest, clang, ASAN, all features'', ''ubuntu-latest, clang, gz=zlib=1'']"
proof -
  let ?fin = "snd (run demo_env ''matrix.py'' [''master''])"
  have cc: "''clang'' \<in> {''gcc'', ''clang''}" by simp
  from C2_linux_leg[OF demo_run_ok cc] obtain rs where rs:
    "length rs = 6"
    "map name (leg_of ''clang'' (matrix ?fin)) =
         [''ubuntu-latest, clang, no features'', ''ubuntu-latest, clang, all features'',
          ''ubuntu-latest, clang, ASAN, all features'', ''ubuntu-latest, clang, gz=zlib=1'']
         @ map (\<lambda>r. ''ubuntu-latest, clang, ssl='' @ clean_ssl r) rs"
    by (auto simp: linux_os_def)
  from rs have "length (map name (leg_of ''clang'' (matrix ?fin))) = 10" by simp
  then have "length (leg_of ''clang'' (matrix ?fin)) = 10" by simp
  with rs(2) demo_run_ok cc show ?thesis by simp
qed

section \<open>Stable and development branches (C5)\<close>

lemma generate_writable:
  assumes "generate e ref_name s = (Inr (), s')"
  shows "GITHUB_OUTPUT e = None \<or> output_writable e"
proof -
  let ?s1 = "print_stdout (banner ref_name) s"
  let ?osn = "linux_os ref_name"
  obtain r2 s2 where a: "linux_step e ref_name ?osn ''linux-glibc'' ''gcc'' ?s1 = (r2, s2)"
    by (cases "linux_step e ref_name ?osn ''linux-glibc'' ''gcc'' ?s1")
  have r2: "r2 = Inr ()" using assms a by (cases r2) (simp_all add: generate_def Let_def)
  obtain r3 s3 where b: "linux_step e ref_name ?osn ''linux-glibc'' ''clang'' s2 = (r3, s3)"
    by (cases "linux_step e ref_name ?osn ''linux-glibc'' ''clang'' s2")
  have r3: "r3 = Inr ()" using assms a b r2 by (cases r3) (simp_all add: generate_def Let_def)
  have "\<exists>t. write_github_output e t = (Inr (), s')"
    using assms a b r2 r3 by (auto simp: generate_def Let_def macos_step_def)
  then show ?thesis
    by (auto simp: write_github_output_def split: option.splits if_splits)
qed

lemma os_linux_leg:
  "en \<in> set (linux_leg osn cc ms rs) \<Longrightarrow> os en = osn \<and> TARGET en = ''linux-glibc''"
  by (auto simp: linux_leg_def fixed_entries_def no_features_def ssl_entries_def ssl_entry_def)

lemma ssl_linux_leg:
  "en \<in> set (linux_leg osn cc ms rs) \<Longrightarrow> ssl en = Some v \<Longrightarrow> v \<in> set rs"
  by (auto simp: linux_leg_def fixed_entries_def no_features_def ssl_entries_def ssl_entry_def
      dest: set_zip_rightD)

text \<open>
  C5: a ref name containing \<open>haproxy-\<close> is a stable branch: Linux entries run on
  \<open>ubuntu-22.04\<close>, the macOS entry on \<open>macos-12\<close>, the candidate markers are the four
  pinned ones, no request is sent and no entry carries a resolved marker.  Any other
  ref name is a development branch: \<open>ubuntu-latest\<close>, \<open>macos-latest\<close>, and the two
  markers \<open>OPENSSL_VERSION=latest\<close> and \<open>LIBRESSL_VERSION=latest\<close> in addition.
\<close>

theorem C5_branch_classification:
  "(str_in ''haproxy-'' ref_name \<longrightarrow>
      linux_os ref_name = ''ubuntu-22.04'' \<and> macos_os ref_name = ''macos-12''
      \<and> ssl_versions ref_name =
          [''stock'', ''OPENSSL_VERSION=1.0.2u'', ''OPENSSL_VERSION=1.1.1s'', ''QUICTLS=yes'']
      \<and> (\<forall>m \<in> set (ssl_versions ref_name). \<not> str_in ''latest'' m)
      \<and> (run e prog [ref_name] = (0, fin) \<longrightarrow>
            network_log fin = []
            \<and> (\<forall>en \<in> set (matrix fin). \<forall>v. ssl en = Some v \<longrightarrow> v \<in> set (ssl_versions ref_name))))
   \<and> (\<not> str_in ''haproxy-'' ref_name \<longrightarrow>
      linux_os ref_name = ''ubuntu-latest'' \<and> macos_os ref_name = ''macos-latest''
      \<and> ssl_versions ref_name =
          [''stock'', ''OPENSSL_VERSION=1.0.2u'', ''OPENSSL_VERSION=1.1.1s'', ''QUICTLS=yes'',
           ''OPENSSL_VERSION=latest'', ''LIBRESSL_VERSION=latest''])
   \<and> (run e prog [ref_name] = (0, fin) \<longrightarrow>
        (\<forall>en \<in> set (matrix fin).
           os en = (if TARGET en = ''linux-glibc'' then linux_os ref_name else macos_os ref_name)))"
proof (intro conjI impI)
  assume st: "str_in ''haproxy-'' ref_name"
  show "linux_os ref_name = ''ubuntu-22.04''" "macos_os ref_name = ''macos-12''"
    using st by (simp_all add: linux_os_def macos_os_def)
  show "ssl_versions ref_name =
          [''stock'', ''OPENSSL_VERSION=1.0.2u'', ''OPENSSL_VERSION=1.1.1s'', ''QUICTLS=yes'']"
    using st by (rule ssl_versions_stable)
  show pinned: "\<forall>m \<in> set (ssl_versions ref_name). \<not> str_in ''latest'' m"
    using st by (simp add: ssl_versions_stable)
  assume r: "run e prog [ref_name] = (0, fin)"
  from r have g: "generate e ref_name initial = (Inr (), fin)" by (simp add: run_ok_iff)
  from run_result[OF r] obtain rs where rs:
    "length rs = length (ssl_versions ref_name)"
    "matrix fin = linux_leg (linux_os ref_name) ''gcc'' (ssl_versions ref_name) rs
          @ linux_leg (linux_os ref_name) ''clang'' (ssl_versions ref_name) rs
          @ [no_features (macos_os ref_name) ''osx'' ''clang'']"
    "\<forall>i < length (ssl_versions ref_name).
           \<not> str_in ''latest'' (ssl_versions ref_name ! i) \<longrightarrow> rs ! i = ssl_versions ref_name ! i"
    by blast
  have "rs = ssl_versions ref_name"
    using rs(1,3) pinned by (intro nth_equalityI) simp_all
  with rs(2) show "\<forall>en \<in> set (matrix fin). \<forall>v. ssl en = Some v \<longrightarrow> v \<in> set (ssl_versions ref_name)"
    by (auto simp: no_features_def dest: ssl_linux_leg)
  have w: "GITHUB_OUTPUT e = None \<or> output_writable e"
    using g by (rule generate_writable)
  from stable_run[OF st w, of prog] r show "network_log fin = []" by auto
next
  assume dev: "\<not> str_in ''haproxy-'' ref_name"
  show "linux_os ref_name = ''ubuntu-latest''" "macos_os ref_name = ''macos-latest''"
    using dev by (simp_all add: linux_os_def macos_os_def)
  show "ssl_versions ref_name =
          [''stock'', ''OPENSSL_VERSION=1.0.2u'', ''OPENSSL_VERSION=1.1.1s'', ''QUICTLS=yes'',
           ''OPENSSL_VERSION=latest'', ''LIBRESSL_VERSION=latest'']"
    using dev by (rule ssl_versions_dev)
next
  assume r: "run e prog [ref_name] = (0, fin)"
  from run_result[OF r] obtain rs where
    "matrix fin = linux_leg (linux_os ref_name) ''gcc'' (ssl_versions ref_name) rs
          @ linux_leg (linux_os ref_name) ''clang'' (ssl_versions ref_name) rs
          @ [no_features (macos_os ref_name) ''osx'' ''clang'']"
    by blast
  then show "\<forall>en \<in> set (matrix fin).
           os en = (if TARGET en = ''linux-glibc'' then linux_os ref_name else macos_os ref_name)"
    by (auto simp: no_features_def dest: os_linux_leg)
qed

theorem C5_branch_classification_witness:
  "str_in ''haproxy-'' ''haproxy-2.8''
   \<and> run offline_env ''matrix.py'' [''haproxy-2.8'']
       = (0, snd (run offline_env ''matrix.py'' [''haproxy-2.8'']))
   \<and> linux_os ''haproxy-2.8'' = ''ubuntu-22.04'' \<and> macos_os ''haproxy-2.8'' = ''macos-12''
   \<and> network_log (snd (run offline_env ''matrix.py'' [''haproxy-2.8''])) = []
   \<and> \<not> str_in ''haproxy-'' ''master''
   \<and> run demo_env ''matrix.py'' [''master''] = (0, snd (run demo_env ''matrix.py'' [''master'']))
   \<and> linux_os ''master'' = ''ubuntu-latest'' \<and> macos_os ''master'' = ''macos-latest''
   \<and> ssl_versions ''master'' =
          [''stock'', ''OPENSSL_VERSION=1.0.2u'', ''OPENSSL_VERSION=1.1.1s'', ''QUICTLS=yes'',
           ''OPENSSL_VERSION=latest'', ''LIBRESSL_VERSION=latest'']"
proof -
  have st: "str_in ''haproxy-'' ''haproxy-2.8''" and dev: "\<not> str_in ''haproxy-'' ''master''"
    by simp_all
  from C5_branch_classification[of "''haproxy-2.8''" offline_env "''matrix.py''"
      "snd (run offline_env ''matrix.py'' [''haproxy-2.8''])"] st offline_run_ok
  have a: "linux_os ''haproxy-2.8'' = ''ubuntu-22.04''" "macos_os ''haproxy-2.8'' = ''macos-12''"
    "network_log (snd (run offline_env ''matrix.py'' [''haproxy-2.8''])) = []"
    by blast+
  from C5_branch_classification[of "''master''" demo_env "''matrix.py''"
      "snd (run demo_env ''matrix.py'' [''master''])"] dev
  have b: "linux_os ''master'' = ''ubuntu-latest''" "macos_os ''master'' = ''macos-latest''"
    "ssl_versions ''master'' =
          [''stock'', ''OPENSSL_VERSION=1.0.2u'', ''OPENSSL_VERSION=1.1.1s'', ''QUICTLS=yes'',
           ''OPENSSL_VERSION=latest'', ''LIBRESSL_VERSION=latest'']"
    by blast+
  from st dev a b offline_run_ok demo_run_ok show ?thesis by blast
qed

section \<open>The flags of a TLS entry (C6, C8)\<close>

text \<open>
  C6: for every marker of the candidate list, the entry's FLAGS contain \<open>USE_QUIC=1\<close>
  exactly when the marker is \<open>QUICTLS=yes\<close> or contains \<open>LIBRESSL\<close>, and contain the
  two path flags \<open>SSL_LIB\<close> and \<open>SSL_INC\<close> exactly when the marker is not \<open>stock\<close>;
  these are the FLAGS of the entry the TLS step appends for the marker.
\<close>

theorem C6_flags:
  "\<forall>m \<in> set (ssl_versions ref_name).
     ((''USE_QUIC=1'' \<in> set (ssl_flags m)) = (m = ''QUICTLS=yes'' \<or> str_in ''LIBRESSL'' m))
     \<and> ((''SSL_LIB=${HOME}/opt/lib'' \<in> set (ssl_flags m)
          \<and> ''SSL_INC=${HOME}/opt/include'' \<in> set (ssl_flags m)) = (m \<noteq> ''stock''))
     \<and> (\<forall>e osn target cc s s'. ssl_step e osn target cc m s = (Inr (), s') \<longrightarrow>
           (\<exists>en. matrix s' = matrix s @ [en] \<and> FLAGS en = ssl_flags m))"
proof
  fix m assume m: "m \<in> set (ssl_versions ref_name)"
  have nb: "m \<noteq> ''BORINGSSL=yes''"
    using m by (auto simp: ssl_versions_def Let_def split: if_splits)
  have quic: "(''USE_QUIC=1'' \<in> set (ssl_flags m)) = (m = ''QUICTLS=yes'' \<or> str_in ''LIBRESSL'' m)"
    using nb by (simp add: ssl_flags_def)
  have path: "(''SSL_LIB=${HOME}/opt/lib'' \<in> set (ssl_flags m)
          \<and> ''SSL_INC=${HOME}/opt/include'' \<in> set (ssl_flags m)) = (m \<noteq> ''stock'')"
    by (simp add: ssl_flags_def)
  have step: "\<forall>e osn target cc s s'. ssl_step e osn target cc m s = (Inr (), s') \<longrightarrow>
           (\<exists>en. matrix s' = matrix s @ [en] \<and> FLAGS en = ssl_flags m)"
  proof (intro allI impI)
    fix e osn target cc s s'
    assume a: "ssl_step e osn target cc m s = (Inr (), s')"
    obtain r s1 where r: "resolve_latest e m s = (r, s1)" by (cases "resolve_latest e m s")
    from a r obtain v where v: "r = Inr v" "s' = matrix_append (ssl_entry osn target cc m v) s1"
      by (cases r) (simp_all add: ssl_step_eq[of e osn target cc m s])
    from resolve_latest_frame[OF r] have "matrix s1 = matrix s" by simp
    with v(2) show "\<exists>en. matrix s' = matrix s @ [en] \<and> FLAGS en = ssl_flags m"
      by (intro exI[of _ "ssl_entry osn target cc m v"]) (simp add: ssl_entry_def)
  qed
  from quic path step
  show "((''USE_QUIC=1'' \<in> set (ssl_flags m)) = (m = ''QUICTLS=yes'' \<or> str_in ''LIBRESSL'' m))
     \<and> ((''SSL_LIB=${HOME}/opt/lib'' \<in> set (ssl_flags m)
          \<and> ''SSL_INC=${HOME}/opt/include'' \<in> set (ssl_flags m)) = (m \<noteq> ''stock''))
     \<and> (\<forall>e osn target cc s s'. ssl_step e osn target cc m s = (Inr (), s') \<longrightarrow>
           (\<exists>en. matrix s' = matrix s @ [en] \<and> FLAGS en = ssl_flags m))"
    by blast
qed

theorem C6_flags_witness:
  "''QUICTLS=yes'' \<in> set (ssl_versions ''master'')
   \<and> ''USE_QUIC=1'' \<in> set (ssl_flags ''QUICTLS=yes'')
   \<and> ''SSL_LIB=${HOME}/opt/lib'' \<in> set (ssl_flags ''QUICTLS=yes'')
   \<and> ''SSL_INC=${HOME}/opt/include'' \<in> set (ssl_flags ''QUICTLS=yes'')
   \<and> ssl_step offline_env ''ubuntu-latest'' ''linux-glibc'' ''gcc'' ''QUICTLS=yes'' initial
       = (Inr (), matrix_append
            (ssl_entry ''ubuntu-latest'' ''linux-glibc'' ''gcc'' ''QUICTLS=yes'' ''QUICTLS=yes'') initial)
   \<and> FLAGS (last (matrix (matrix_append
            (ssl_entry ''ubuntu-latest'' ''linux-glibc'' ''gcc'' ''QUICTLS=yes'' ''QUICTLS=yes'') initial)))
       = ssl_flags ''QUICTLS=yes''"
proof -
  have m: "''QUICTLS=yes'' \<in> set (ssl_versions ''master'')"
    by (simp add: ssl_versions_def)
  have st: "ssl_step offline_env ''ubuntu-latest'' ''linux-glibc'' ''gcc'' ''QUICTLS=yes'' initial
       = (Inr (), matrix_append
            (ssl_entry ''ubuntu-latest'' ''linux-glibc'' ''gcc'' ''QUICTLS=yes'' ''QUICTLS=yes'') initial)"
    by (simp add: ssl_step_eq resolve_latest_pinned)
  note c = C6_flags[of "''master''", THEN bspec, OF m]
  note a = c[THEN conjunct1] c[THEN conjunct2, THEN conjunct1] c[THEN conjunct2, THEN conjunct2]
  from a(3)[rule_format, OF st] obtain en where
    "matrix (matrix_append
        (ssl_entry ''ubuntu-latest'' ''linux-glibc'' ''gcc'' ''QUICTLS=yes'' ''QUICTLS=yes'') initial)
       = matrix initial @ [en]" "FLAGS en = ssl_flags ''QUICTLS=yes''"
    by blast
  then have "FLAGS (last (matrix (matrix_append
            (ssl_entry ''ubuntu-latest'' ''linux-glibc'' ''gcc'' ''QUICTLS=yes'' ''QUICTLS=yes'') initial)))
       = ssl_flags ''QUICTLS=yes''"
    by simp
  moreover have "''USE_QUIC=1'' \<in> set (ssl_flags ''QUICTLS=yes'')" using a(1) by simp
  moreover have "''SSL_LIB=${HOME}/opt/lib'' \<in> set (ssl_flags ''QUICTLS=yes'')
      \<and> ''SSL_INC=${HOME}/opt/include'' \<in> set (ssl_flags ''QUICTLS=yes'')" using a(2) by simp
  ultimately show ?thesis using m st by simp
qed

lemma demo_resolve_libressl:
  "fst (resolve_latest demo_env ''LIBRESSL_VERSION=latest'' initial) = Inr ''LIBRESSL_VERSION=3.8.2''"
proof -
  have "sent_to libressl_url initial = 0" "map_of (libressl_cache initial) ''LIBRESSL_VERSION=latest'' = None"
    by (simp_all add: sent_to_def initial_def)
  then show ?thesis
    using demo_libressl by (simp add: resolve_latest_eq libressl_miss wants_openssl_def)
qed

text \<open>
  C8: resolving a "latest" marker changes only the value used for the entry's name and
  its \<open>ssl\<close> field.  The resolution leaves the matrix as it was, and the entry then
  appended has the FLAGS built from the marker of the candidate list, whatever the
  resolver has returned.
\<close>

theorem C8_flags_frame:
  "resolve_latest e m s = (Inr r, s1) \<Longrightarrow>
     matrix s1 = matrix s
     \<and> ssl_step e osn target cc m s =
         (Inr (), matrix_append
            \<lparr>name = osn @ '', '' @ cc @ '', ssl='' @ clean_ssl r, os = osn, TARGET = target,
             CC = cc, ssl = Some r, FLAGS = ssl_flags m\<rparr> s1)"
  using resolve_latest_frame[of e m s "Inr r" s1]
  by (simp add: ssl_step_def Let_def)

theorem C8_flags_frame_witness:
  "resolve_latest demo_env ''LIBRESSL_VERSION=latest'' initial
     = (Inr ''LIBRESSL_VERSION=3.8.2'', snd (resolve_latest demo_env ''LIBRESSL_VERSION=latest'' initial))
   \<and> matrix (snd (resolve_latest demo_env ''LIBRESSL_VERSION=latest'' initial)) = matrix initial
   \<and> ssl_step demo_env ''ubuntu-latest'' ''linux-glibc'' ''gcc'' ''LIBRESSL_VERSION=latest'' initial =
         (Inr (), matrix_append
            \<lparr>name = ''ubuntu-latest'' @ '', '' @ ''gcc'' @ '', ssl='' @ clean_ssl ''LIBRESSL_VERSION=3.8.2'',
             os = ''ubuntu-latest'', TARGET = ''linux-glibc'', CC = ''gcc'',
             ssl = Some ''LIBRESSL_VERSION=3.8.2'',
             FLAGS = [''USE_OPENSSL=1'', ''USE_QUIC=1'', ''SSL_LIB=${HOME}/opt/lib'',
                      ''SSL_INC=${HOME}/opt/include'']\<rparr>
            (snd (resolve_latest demo_env ''LIBRESSL_VERSION=latest'' initial)))"
proof -
  have r: "resolve_latest demo_env ''LIBRESSL_VERSION=latest'' initial
     = (Inr ''LIBRESSL_VERSION=3.8.2'', snd (resolve_latest demo_env ''LIBRESSL_VERSION=latest'' initial))"
    using demo_resolve_libressl by (metis prod.collapse)
  have f: "ssl_flags ''LIBRESSL_VERSION=latest'' =
     [''USE_OPENSSL=1'', ''USE_QUIC=1'', ''SSL_LIB=${HOME}/opt/lib'', ''SSL_INC=${HOME}/opt/include'']"
    by (simp add: ssl_flags_def)
  from C8_flags_frame[OF r, where osn = "''ubuntu-latest''" and target = "''linux-glibc''"
      and cc = "''gcc''"] r f
  show ?thesis by simp
qed

section \<open>The command line (C9)\<close>

lemma generate_prints_banner:
  assumes "generate e ref_name s = (res, s')"
  shows "\<exists>rest. stdout s' = stdout s @ banner ref_name @ [newline] @ rest"
proof -
  let ?s1 = "print_stdout (banner ref_name) s"
  let ?osn = "linux_os ref_name"
  have b: "stdout ?s1 = stdout s @ banner ref_name @ [newline] @ []"
    by (simp add: print_stdout_def)
  obtain r2 s2 where a: "linux_step e ref_name ?osn ''linux-glibc'' ''gcc'' ?s1 = (r2, s2)"
    by (cases "linux_step e ref_name ?osn ''linux-glibc'' ''gcc'' ?s1")
  from linux_step_frame[OF a] have f2: "stdout s2 = stdout ?s1" by simp
  show ?thesis
  proof (cases r2)
    case (Inl x)
    with assms a have "s' = s2" by (simp add: generate_def Let_def)
    with f2 b show ?thesis by metis
  next
    case r2: (Inr u)
    obtain r3 s3 where c: "linux_step e ref_name ?osn ''linux-glibc'' ''clang'' s2 = (r3, s3)"
      by (cases "linux_step e ref_name ?osn ''linux-glibc'' ''clang'' s2")
    from linux_step_frame[OF c] have f3: "stdout s3 = stdout s2" by simp
    show ?thesis
    proof (cases r3)
      case (Inl x)
      with assms a c r2 have "s' = s3" by (simp add: generate_def Let_def)
      with f3 f2 b show ?thesis by metis
    next
      case (Inr v)
      let ?s4 = "matrix_append (no_features (macos_os ref_name) ''osx'' ''clang'') s3"
      let ?s5 = "print_stdout (json_dumps (Some 4) True (matrix_json (matrix ?s4))) ?s4"
      from assms a c r2 Inr have w: "write_github_output e ?s5 = (res, s')"
        by (simp add: generate_def Let_def macos_step_def)
      from write_github_output_frame[OF w] have "stdout s' = stdout ?s5" by simp
      then have "stdout s' = stdout s @ banner ref_name @ [newline]
          @ (json_dumps (Some 4) True (matrix_json (matrix ?s4)) @ [newline])"
        using f3 f2 by (simp add: print_stdout_def matrix_append_def)
      then show ?thesis by blast
    qed
  qed
qed

lemma exit_status_zero: "\<not> (\<exists>x. r = Inl x \<and> is_exit x) \<Longrightarrow> (exit_status r = 0) = (r = Inr ())"
proof (cases r)
  case (Inl x)
  assume "\<not> (\<exists>x. r = Inl x \<and> is_exit x)"
  with Inl have "\<not> is_exit x" by simp
  with Inl show ?thesis by (cases x) (simp_all add: exit_status_def is_exit_def)
next
  case (Inr u)
  then show ?thesis by (simp add: exit_status_def)
qed

text \<open>
  C9: with no argument, or with two or more, the program prints the usage line to
  standard error and exits with status 1; nothing is written to standard output or to
  the output file.  With exactly one argument it goes on to generate the matrix for
  that ref name (the first thing on standard output is the banner line), and its exit
  status is 0 exactly when the generation raises no exception.
\<close>

theorem C9_argument_count:
  "(length args \<noteq> 1 \<longrightarrow>
      run e prog args = (1, initial\<lparr>stderr := ''Usage: '' @ prog @ '' <ref_name>'' @ [newline]\<rparr>)
      \<and> stdout (snd (run e prog args)) = [] \<and> output_file (snd (run e prog args)) = [])
   \<and> (args = [ref_name] \<longrightarrow>
      snd (run e prog args) = snd (generate e ref_name initial)
      \<and> (\<exists>rest. stdout (snd (run e prog args)) = banner ref_name @ [newline] @ rest)
      \<and> stderr (snd (run e prog args)) = []
      \<and> (fst (run e prog args) = 0) = (fst (generate e ref_name initial) = Inr ()))"
proof (intro conjI impI)
  assume n: "length args \<noteq> 1"
  then show u: "run e prog args
      = (1, initial\<lparr>stderr := ''Usage: '' @ prog @ '' <ref_name>'' @ [newline]\<rparr>)"
    by (simp add: run_def main_def exit_status_def print_stderr_def initial_def)
  show "stdout (snd (run e prog args)) = []" "output_file (snd (run e prog args)) = []"
    by (simp_all add: u initial_def)
next
  assume a: "args = [ref_name]"
  obtain r s where g: "generate e ref_name initial = (r, s)"
    by (cases "generate e ref_name initial")
  have ru: "run e prog args = (exit_status r, s)"
    using a g by (simp add: run_def main_def)
  show "snd (run e prog args) = snd (generate e ref_name initial)"
    using ru g by simp
  from generate_prints_banner[OF g]
  show "\<exists>rest. stdout (snd (run e prog args)) = banner ref_name @ [newline] @ rest"
    using ru by (simp add: initial_def)
  have "stderr s = stderr initial"
  proof (cases r)
    case (Inr u)
    with g generate_result[of e ref_name initial s] show ?thesis by auto
  next
    case (Inl x)
    let ?s1 = "print_stdout (banner ref_name) initial"
    let ?osn = "linux_os ref_name"
    obtain r2 s2 where b: "linux_step e ref_name ?osn ''linux-glibc'' ''gcc'' ?s1 = (r2, s2)"
      by (cases "linux_step e ref_name ?osn ''linux-glibc'' ''gcc'' ?s1")
    from linux_step_frame[OF b] have f2: "stderr s2 = stderr initial" by (simp add: print_stdout_def)
    show ?thesis
    proof (cases r2)
      case (Inl y)
      with g b have "s = s2" by (simp add: generate_def Let_def)
      with f2 show ?thesis by simp
    next
      case r2: (Inr u)
      obtain r3 s3 where c: "linux_step e ref_name ?osn ''linux-glibc'' ''clang'' s2 = (r3, s3)"
        by (cases "linux_step e ref_name ?osn ''linux-glibc'' ''clang'' s2")
      from linux_step_frame[OF c] have f3: "stderr s3 = stderr s2" by simp
      show ?thesis
      proof (cases r3)
        case (Inl y)
        with g b c r2 have "s = s3" by (simp add: generate_def Let_def)
        with f3 f2 show ?thesis by simp
      next
        case (Inr v)
        with g b c r2 have "\<exists>t. write_github_output e t = (r, s) \<and> stderr t = stderr s3"
          by (auto simp: generate_def Let_def macos_step_def print_stdout_def matrix_append_def)
        then show ?thesis using f3 f2 by (auto dest: write_github_output_frame)
      qed
    qed
  qed
  then show "stderr (snd (run e prog args)) = []" using ru by (simp add: initial_def)
  have "\<not> (\<exists>x. r = Inl x \<and> is_exit x)" using g generate_no_exit by blast
  from exit_status_zero[OF this]
  show "(fst (run e prog args) = 0) = (fst (generate e ref_name initial) = Inr ())"
    using ru g by simp
qed

theorem C9_argument_count_witness:
  "length ([] :: string list) \<noteq> 1
   \<and> run offline_env ''matrix.py'' []
       = (1, initial\<lparr>stderr := ''Usage: '' @ ''matrix.py'' @ '' <ref_name>'' @ [newline]\<rparr>)
   \<and> length [''master'', ''extra''] \<noteq> 1
   \<and> fst (run offline_env ''matrix.py'' [''master'', ''extra'']) = 1
   \<and> stdout (snd (run offline_env ''matrix.py'' [''master'', ''extra''])) = []
   \<and> fst (generate offline_env ''haproxy-2.8'' initial) = Inr ()
   \<and> fst (run offline_env ''matrix.py'' [''haproxy-2.8'']) = 0"
proof -
  have n0: "length ([] :: string list) \<noteq> 1" and n2: "length [''master'', ''extra''] \<noteq> 1"
    by simp_all
  note z = C9_argument_count[where args = "[]" and e = offline_env and prog = "''matrix.py''"
      and ref_name = "''x''", THEN conjunct1, rule_format, OF n0]
  note t = C9_argument_count[where args = "[''master'', ''extra'']" and e = offline_env
      and prog = "''matrix.py''" and ref_name = "''x''", THEN conjunct1, rule_format, OF n2]
  note o = C9_argument_count[where args = "[''haproxy-2.8'']" and e = offline_env
      and prog = "''matrix.py''" and ref_name = "''haproxy-2.8''", THEN conjunct2, rule_format, OF refl]
  have ok: "fst (run offline_env ''matrix.py'' [''haproxy-2.8'']) = 0"
    using offline_run_ok by (metis fst_conv)
  with o have "fst (generate offline_env ''haproxy-2.8'' initial) = Inr ()" by simp
  with z t ok n0 n2 show ?thesis by (simp add: initial_caches)
qed

section \<open>Tags without an OpenSSL release (C10)\<close>

lemma scan_tags_no_match:
  "\<forall>t \<in> set tags. \<exists>kvs n. t = JObj kvs \<and> map_of kvs ''name'' = Some (JStr n)
       \<and> \<not> str_in ''openssl-'' n \<Longrightarrow>
   scan_tags tags latest_tag = Inr latest_tag"
  by (induction tags) auto

text \<open>
  C10: when the request for the tags succeeds (a status in 200..299) and the body is a
  JSON array of tag objects none of whose names contains \<open>openssl-\<close>, the resolver, called
  on a marker it has not memoized, returns \<open>OPENSSL_VERSION=\<close> with an empty version
  and not the \<open>failed_to_detect\<close> sentinel.
\<close>

theorem C10_no_openssl_tag:
  assumes "map_of (openssl_cache s) k = None"
    and "nth_outcome (openssl_net e) (sent_to openssl_url s) = Response code (TagsJson (JArr tags))"
    and "200 \<le> code" and "code < 300"
    and "\<forall>t \<in> set tags. \<exists>kvs n. t = JObj kvs \<and> map_of kvs ''name'' = Some (JStr n)
           \<and> \<not> str_in ''openssl-'' n"
  shows "fst (determine_latest_openssl e k s) = Inr ''OPENSSL_VERSION=''"
proof -
  have "openssl_from_outcome (Response code (TagsJson (JArr tags))) = Inr ''OPENSSL_VERSION=''"
    using assms(3,4) scan_tags_no_match[OF assms(5), of "[]"]
    by (simp add: openssl_from_outcome_def)
  with assms(1,2) show ?thesis by (simp add: openssl_miss)
qed

theorem C10_no_openssl_tag_witness:
  "map_of (openssl_cache initial) ''OPENSSL_VERSION=latest'' = None
   \<and> nth_outcome [Response 200 (TagsJson (JArr [JObj [(''name'', JStr ''OpenSSL_1_1_1w'')]]))]
        (sent_to openssl_url initial)
       = Response 200 (TagsJson (JArr [JObj [(''name'', JStr ''OpenSSL_1_1_1w'')]]))
   \<and> \<not> str_in ''openssl-'' ''OpenSSL_1_1_1w''
   \<and> fst (determine_latest_openssl
        \<lparr>GITHUB_TOKEN = None, GITHUB_OUTPUT = None, output_writable = True,
          openssl_net = [Response 200 (TagsJson (JArr [JObj [(''name'', JStr ''OpenSSL_1_1_1w'')]]))],
          libressl_net = []\<rparr> ''OPENSSL_VERSION=latest'' initial) = Inr ''OPENSSL_VERSION=''"
proof -
  let ?tags = "[JObj [(''name'', JStr ''OpenSSL_1_1_1w'')]]"
  let ?e = "\<lparr>GITHUB_TOKEN = None, GITHUB_OUTPUT = None, output_writable = True,
          openssl_net = [Response 200 (TagsJson (JArr ?tags))], libressl_net = []\<rparr>"
  have c: "map_of (openssl_cache initial) ''OPENSSL_VERSION=latest'' = None"
    by (simp add: initial_def)
  have o: "nth_outcome (openssl_net ?e) (sent_to openssl_url initial)
      = Response 200 (TagsJson (JArr ?tags))"
    by (simp add: nth_outcome_def sent_to_def initial_def)
  have n: "\<not> str_in ''openssl-'' ''OpenSSL_1_1_1w''" by simp
  then have t: "\<forall>t \<in> set ?tags. \<exists>kvs n. t = JObj kvs \<and> map_of kvs ''name'' = Some (JStr n)
           \<and> \<not> str_in ''openssl-'' n"
    by simp
  from C10_no_openssl_tag[OF c o _ _ t] c o n show ?thesis by simp
qed

section \<open>Calling a resolver again\<close>

lemma filter_take_no_key:
  "map_of c k = None \<Longrightarrow> filter (\<lambda>p. fst p \<noteq> k) (take n c) = take n c"
proof -
  assume "map_of c k = None"
  then have "k \<notin> fst ` set c" by (simp add: map_of_eq_None_iff)
  then have "\<forall>p \<in> set (take n c). fst p \<noteq> k"
    using set_take_subset[of n c] by fastforce
  then show ?thesis by (simp add: filter_id_conv)
qed

lemma openssl_again:
  assumes "determine_latest_openssl e k s = (Inr v, s1)"
  shows "determine_latest_openssl e' k s1 = (Inr v, s1)"
proof (cases "map_of (openssl_cache s) k")
  case (Some w)
  with assms openssl_hit[OF Some, of e]
  have s1: "w = v" "s1 = s\<lparr>openssl_cache := (k, v) # filter (\<lambda>p. fst p \<noteq> k) (openssl_cache s)\<rparr>"
    by auto
  then have "map_of (openssl_cache s1) k = Some v" by simp
  from openssl_hit[OF this, of e'] s1(2) show ?thesis by simp
next
  case None
  from assms openssl_miss[OF None, of e]
  have s1: "s1 = (send k (openssl_request e) s)\<lparr>openssl_cache := take 5 ((k, v) # openssl_cache s)\<rparr>"
    by (auto split: sum.splits)
  then have c: "openssl_cache s1 = (k, v) # take 4 (openssl_cache s)" by simp
  then have "map_of (openssl_cache s1) k = Some v" by simp
  from openssl_hit[OF this, of e'] c filter_take_no_key[OF None, of 4] show ?thesis by simp
qed

lemma libressl_again:
  assumes "determine_latest_libressl e k s = (Inr v, s1)"
  shows "determine_latest_libressl e' k s1 = (Inr v, s1)"
proof (cases "map_of (libressl_cache s) k")
  case (Some w)
  with assms libressl_hit[OF Some, of e]
  have s1: "w = v" "s1 = s\<lparr>libressl_cache := (k, v) # filter (\<lambda>p. fst p \<noteq> k) (libressl_cache s)\<rparr>"
    by auto
  then have "map_of (libressl_cache s1) k = Some v" by simp
  from libressl_hit[OF this, of e'] s1(2) show ?thesis by simp
next
  case None
  from assms libressl_miss[OF None, of e]
  have s1: "s1 = (send k libressl_request s)\<lparr>libressl_cache := take 5 ((k, v) # libressl_cache s)\<rparr>"
    by (auto split: sum.splits)
  then have c: "libressl_cache s1 = (k, v) # take 4 (libressl_cache s)" by simp
  then have "map_of (libressl_cache s1) k = Some v" by simp
  from libressl_hit[OF this, of e'] c filter_take_no_key[OF None, of 4] show ?thesis by simp
qed

lemma count_distinct: "distinct (map f xs) \<Longrightarrow> length (filter (\<lambda>p. f p = y) xs) \<le> 1"
proof (induction xs)
  case Nil
  then show ?case by simp
next
  case (Cons x xs)
  from Cons.prems have d: "f x \<notin> f ` set xs" "distinct (map f xs)" by simp_all
  have "f x = y \<Longrightarrow> filter (\<lambda>p. f p = y) xs = []"
  proof -
    assume "f x = y"
    with d(1) have "\<forall>p \<in> set xs. f p \<noteq> y" by blast
    then show ?thesis by (simp add: filter_empty_conv)
  qed
  with Cons.IH[OF d(2)] show ?case by auto
qed

lemma run_log_distinct: "run e prog args = (code, fin) \<Longrightarrow> distinct (log_keys fin)"
proof (cases "length args = 1")
  case False
  assume "run e prog args = (code, fin)"
  with False have "fin = print_stderr (''Usage: '' @ prog @ '' <ref_name>'') initial"
    by (auto simp: run_def main_def)
  then show ?thesis by (simp add: log_keys_def print_stderr_def initial_def)
next
  case True
  then obtain ref_name where a: "args = [ref_name]" by (cases args) auto
  assume r: "run e prog args = (code, fin)"
  obtain res where g: "generate e ref_name initial = (res, fin)"
    using r a by (cases "generate e ref_name initial") (simp add: run_def main_def)
  from generate_trace[OF g initial_caches(1,2,3)] show ?thesis by simp
qed

lemma demo_resolve_openssl:
  "determine_latest_openssl demo_env ''OPENSSL_VERSION=latest'' initial
     = (Inr ''OPENSSL_VERSION=3.2.0'',
        snd (determine_latest_openssl demo_env ''OPENSSL_VERSION=latest'' initial))"
proof -
  have "sent_to openssl_url initial = 0"
    "map_of (openssl_cache initial) ''OPENSSL_VERSION=latest'' = None"
    by (simp_all add: sent_to_def initial_def)
  then show ?thesis using demo_openssl by (simp add: openssl_miss)
qed

section \<open>Standard output (C4)\<close>

lemma newline_indent_4:
  "newline_indent (Some 4) 0 = line_indent 0" "newline_indent (Some 4) 1 = line_indent 4"
  "newline_indent (Some 4) (Suc 0) = line_indent 4"
  "newline_indent (Some 4) 2 = line_indent 8" "newline_indent (Some 4) (Suc (Suc 0)) = line_indent 8"
  "newline_indent (Some 4) 3 = line_indent 12"
  "newline_indent (Some 4) (Suc (Suc (Suc 0))) = line_indent 12"
  by (simp_all add: newline_indent_def line_indent_def)

lemma encode_strings:
  "json_encode (Some 4) True (Suc (Suc 0)) (JArr (map JStr xs)) = pretty_strings xs"
  by (simp add: pretty_strings_def newline_indent_4 item_separator_def comp_def)

lemma sorted_keys_no_ssl:
  "sort_key fst [(''name'', a), (''os'', b), (''TARGET'', c), (''CC'', d), (''FLAGS'', f)]
     = [(''CC'', d), (''FLAGS'', f), (''TARGET'', c), (''name'', a), (''os'', b)]"
  by simp

lemma sorted_keys_ssl:
  "sort_key fst [(''name'', a), (''os'', b), (''TARGET'', c), (''CC'', d), (''ssl'', g), (''FLAGS'', f)]
     = [(''CC'', d), (''FLAGS'', f), (''TARGET'', c), (''name'', a), (''os'', b), (''ssl'', g)]"
  by simp

lemma encode_entry:
  "json_encode (Some 4) True (Suc 0) (entry_dict en) = pretty_entry en"
proof (cases "ssl en")
  case None
  then show ?thesis
    by (simp add: entry_dict_def pretty_entry_def sorted_keys_no_ssl newline_indent_4
          item_separator_def encode_strings del: sort_key_simps json_encode.simps(5))
next
  case (Some v)
  then show ?thesis
    by (simp add: entry_dict_def pretty_entry_def sorted_keys_ssl newline_indent_4
          item_separator_def encode_strings del: sort_key_simps json_encode.simps(5))
qed

lemma dumps_matrix: "json_dumps (Some 4) True (matrix_json m) = pretty_matrix m"
  by (simp add: json_dumps_def matrix_json_def pretty_matrix_def newline_indent_4
        item_separator_def comp_def encode_entry)

lemma pretty_entry_example:
  \<open>pretty_entry (no_features ''ubuntu-22.04'' ''linux-glibc'' ''gcc'') =
     ''{\<newline>        "CC": "gcc",\<newline>        "FLAGS": [],\<newline>        "TARGET": "linux-glibc",\<newline>        "name": "ubuntu-22.04, gcc, no features",\<newline>        "os": "ubuntu-22.04"\<newline>    }''\<close>
  by code_simp

text \<open>
  C4, as stated: on a successful run standard output is the pretty-printed JSON array.
  It is not that alone: the program first prints the line
  \<open>Generating matrix for branch '<ref_name>'.\<close> to standard output.
\<close>

theorem C4_counterexample:
  "stdout (snd (run \<lparr>GITHUB_TOKEN = None, GITHUB_OUTPUT = None, output_writable = True,
                      openssl_net = [], libressl_net = []\<rparr> ''matrix.py'' [''haproxy-2.8'']))
   \<noteq> json_dumps (Some 4) True (matrix_json (matrix (snd
         (run \<lparr>GITHUB_TOKEN = None, GITHUB_OUTPUT = None, output_writable = True,
               openssl_net = [], libressl_net = []\<rparr> ''matrix.py'' [''haproxy-2.8''])))) @ [newline]
   \<and> take (length (banner ''haproxy-2.8''))
        (stdout (snd (run \<lparr>GITHUB_TOKEN = None, GITHUB_OUTPUT = None, output_writable = True,
                      openssl_net = [], libressl_net = []\<rparr> ''matrix.py'' [''haproxy-2.8''])))
     = banner ''haproxy-2.8''"
proof -
  let ?e = "\<lparr>GITHUB_TOKEN = None, GITHUB_OUTPUT = None, output_writable = True,
             openssl_net = [], libressl_net = []\<rparr>"
  let ?fin = "snd (run ?e ''matrix.py'' [''haproxy-2.8''])"
  let ?js = "json_dumps (Some 4) True (matrix_json (matrix ?fin))"
  have st: "str_in ''haproxy-'' ''haproxy-2.8''" by simp
  from stable_run[OF st, of ?e "''matrix.py''"]
  have "run ?e ''matrix.py'' [''haproxy-2.8''] = (0, ?fin)" by auto
  from run_result[OF this]
  have out: "stdout ?fin = banner ''haproxy-2.8'' @ [newline] @ ?js @ [newline]" by blast
  then have "length (stdout ?fin) = length (banner ''haproxy-2.8'') + 1 + length (?js @ [newline])"
    by simp
  then have "length (stdout ?fin) \<noteq> length (?js @ [newline])" by simp
  then have "stdout ?fin \<noteq> ?js @ [newline]" by metis
  moreover have "take (length (banner ''haproxy-2.8'')) (stdout ?fin) = banner ''haproxy-2.8''"
    using out by simp
  ultimately show ?thesis by blast
qed

text \<open>
  C4, amended: on a successful run standard output is the line
  \<open>Generating matrix for branch '<ref_name>'.\<close> followed by the pretty-printed JSON array
  of the matrix entries, keys sorted alphabetically, indented by 4 spaces per level,
  and a final newline.
\<close>

theorem C4_stdout:
  assumes "run e prog [ref_name] = (0, fin)"
  shows "stdout fin = banner ref_name @ [newline] @ pretty_matrix (matrix fin) @ [newline]
     \<and> pretty_matrix (matrix fin) = json_dumps (Some 4) True (matrix_json (matrix fin))"
  using run_result[OF assms] by (auto simp: dumps_matrix)

theorem C4_stdout_witness:
  "run offline_env ''matrix.py'' [''haproxy-2.8'']
     = (0, snd (run offline_env ''matrix.py'' [''haproxy-2.8'']))
   \<and> stdout (snd (run offline_env ''matrix.py'' [''haproxy-2.8'']))
     = banner ''haproxy-2.8'' @ [newline]
       @ pretty_matrix (matrix (snd (run offline_env ''matrix.py'' [''haproxy-2.8''])))
       @ [newline]"
  using C4_stdout[OF offline_run_ok] offline_run_ok by simp

section \<open>Failures of the version lookup (C1)\<close>



lemma dev_first_leg_fails:
  assumes dev: "\<not> str_in ''haproxy-'' ref_name"
    and c: "openssl_cache s = []" "network_log s = []"
    and o: "openssl_from_outcome (nth_outcome (openssl_net e) 0) = Inl x"
  shows "for_each (ssl_versions ref_name) (ssl_step e osn target cc) s =
     (Inl x, send ''OPENSSL_VERSION=latest'' (openssl_request e)
        (s\<lparr>matrix := matrix s @ ssl_entries osn target cc
            [''stock'', ''OPENSSL_VERSION=1.0.2u'', ''OPENSSL_VERSION=1.1.1s'', ''QUICTLS=yes'']
            [''stock'', ''OPENSSL_VERSION=1.0.2u'', ''OPENSSL_VERSION=1.1.1s'', ''QUICTLS=yes'']\<rparr>))"
proof -
  let ?p = "[''stock'', ''OPENSSL_VERSION=1.0.2u'', ''OPENSSL_VERSION=1.1.1s'', ''QUICTLS=yes'']"
  let ?s4 = "s\<lparr>matrix := matrix s @ ssl_entries osn target cc ?p ?p\<rparr>"
  let ?ko = "''OPENSSL_VERSION=latest''"
  have ro: "resolve_latest e ?ko ?s4 = (Inl x, send ?ko (openssl_request e) ?s4)"
    using c o by (simp add: resolve_latest_eq openssl_miss sent_to_def)
  then show ?thesis
    by (simp add: ssl_versions_dev[OF dev] ssl_step_eq resolve_latest_pinned matrix_append_def
          ssl_entries_def)
qed






section \<open>The requests of a whole run\<close>

lemma libressl_result_not_marker:
  "libressl_from_outcome out = Inr v \<Longrightarrow> v \<noteq> ''OPENSSL_VERSION=latest''"
  by (auto simp: libressl_from_outcome_def split: sum.splits option.splits)

lemma dev_first_leg_libressl_fails:
  assumes dev: "\<not> str_in ''haproxy-'' ref_name"
    and c: "openssl_cache s = []" "libressl_cache s = []" "network_log s = []"
    and o: "openssl_from_outcome (nth_outcome (openssl_net e) 0) = Inr v1"
    and l: "libressl_from_outcome (nth_outcome (libressl_net e) 0) = Inl y"
  shows "\<exists>s'. for_each (ssl_versions ref_name) (ssl_step e osn target cc) s = (Inl y, s')
     \<and> network_log s' = [(''OPENSSL_VERSION=latest'', openssl_request e),
                           (''LIBRESSL_VERSION=latest'', libressl_request)]"
proof -
  let ?p = "[''stock'', ''OPENSSL_VERSION=1.0.2u'', ''OPENSSL_VERSION=1.1.1s'', ''QUICTLS=yes'']"
  let ?s4 = "s\<lparr>matrix := matrix s @ ssl_entries osn target cc ?p ?p\<rparr>"
  let ?ko = "''OPENSSL_VERSION=latest''"
  let ?kl = "''LIBRESSL_VERSION=latest''"
  have ro: "resolve_latest e ?ko ?s4 =
      (Inr v1, (send ?ko (openssl_request e) ?s4)\<lparr>openssl_cache := [(?ko, v1)]\<rparr>)"
    using c o by (simp add: resolve_latest_eq openssl_miss sent_to_def)
  let ?s5 = "matrix_append (ssl_entry osn target cc ?ko v1)
      ((send ?ko (openssl_request e) ?s4)\<lparr>openssl_cache := [(?ko, v1)]\<rparr>)"
  have n5: "sent_to libressl_url ?s5 = 0"
    using c urls_differ by (simp add: sent_to_def send_def openssl_request_def)
  have rl: "resolve_latest e ?kl ?s5 = (Inl y, send ?kl libressl_request ?s5)"
    using c l n5 by (simp add: resolve_latest_eq libressl_miss send_def)
  have "for_each (ssl_versions ref_name) (ssl_step e osn target cc) s
      = (Inl y, send ?kl libressl_request ?s5)"
    using ro rl
    by (simp add: ssl_versions_dev[OF dev] ssl_step_eq resolve_latest_pinned matrix_append_def
          ssl_entries_def)
  moreover have "network_log (send ?kl libressl_request ?s5)
      = [(?ko, openssl_request e), (?kl, libressl_request)]"
    using c by (simp add: send_def matrix_append_def)
  ultimately show ?thesis by blast
qed

lemma dev_first_leg_second_request:
  assumes dev: "\<not> str_in ''haproxy-'' ref_name"
    and c: "openssl_cache s = []" "libressl_cache s = []" "network_log s = []"
    and o: "openssl_from_outcome (nth_outcome (openssl_net e) 0) = Inr v1"
    and l: "libressl_from_outcome (nth_outcome (libressl_net e) 0) = Inr v2"
    and x: "wants_openssl v2"
  shows "\<exists>res s'. for_each (ssl_versions ref_name) (ssl_step e osn target cc) s = (res, s')
     \<and> network_log s' = [(''OPENSSL_VERSION=latest'', openssl_request e),
                           (''LIBRESSL_VERSION=latest'', libressl_request),
                           (v2, openssl_request e)]
     \<and> (\<forall>v3. openssl_from_outcome (nth_outcome (openssl_net e) 1) = Inr v3 \<longrightarrow>
           res = Inr ()
           \<and> matrix s' = matrix s @ ssl_entries osn target cc (ssl_versions ref_name)
               [''stock'', ''OPENSSL_VERSION=1.0.2u'', ''OPENSSL_VERSION=1.1.1s'', ''QUICTLS=yes'',
                v1, v3]
           \<and> openssl_cache s' = [(v2, v3), (''OPENSSL_VERSION=latest'', v1)]
           \<and> libressl_cache s' = [(''LIBRESSL_VERSION=latest'', v2)])"
proof -
  let ?p = "[''stock'', ''OPENSSL_VERSION=1.0.2u'', ''OPENSSL_VERSION=1.1.1s'', ''QUICTLS=yes'']"
  let ?s4 = "s\<lparr>matrix := matrix s @ ssl_entries osn target cc ?p ?p\<rparr>"
  let ?ko = "''OPENSSL_VERSION=latest''"
  let ?kl = "''LIBRESSL_VERSION=latest''"
  have ne: "v2 \<noteq> ?ko" using l by (rule libressl_result_not_marker)
  have ro: "resolve_latest e ?ko ?s4 =
      (Inr v1, (send ?ko (openssl_request e) ?s4)\<lparr>openssl_cache := [(?ko, v1)]\<rparr>)"
    using c o by (simp add: resolve_latest_eq openssl_miss sent_to_def)
  let ?s5 = "matrix_append (ssl_entry osn target cc ?ko v1)
      ((send ?ko (openssl_request e) ?s4)\<lparr>openssl_cache := [(?ko, v1)]\<rparr>)"
  have n5: "sent_to libressl_url ?s5 = 0"
    using c urls_differ by (simp add: sent_to_def send_def openssl_request_def)
  let ?s6 = "(send ?kl libressl_request ?s5)\<lparr>libressl_cache := [(?kl, v2)]\<rparr>"
  have dl: "determine_latest_libressl e ?kl ?s5 = (Inr v2, ?s6)"
    using c l n5 by (simp add: libressl_miss send_def)
  have n6: "sent_to openssl_url ?s6 = 1"
    using c urls_differ by (simp add: sent_to_def send_def openssl_request_def libressl_request_def)
  have m6: "map_of (openssl_cache ?s6) v2 = None"
    using ne by (simp add: send_def)
  have c6: "openssl_cache ?s6 = [(?ko, v1)]" by (simp add: send_def)
  have l6: "network_log (send v2 (openssl_request e) ?s6)
      = [(?ko, openssl_request e), (?kl, libressl_request), (v2, openssl_request e)]"
    using c by (simp add: send_def matrix_append_def)
  show ?thesis
  proof (cases "openssl_from_outcome (nth_outcome (openssl_net e) 1)")
    case (Inl z)
    have "determine_latest_openssl e v2 ?s6 = (Inl z, send v2 (openssl_request e) ?s6)"
      using openssl_miss[OF m6, of e] n6 Inl by simp
    then have rl: "resolve_latest e ?kl ?s5 = (Inl z, send v2 (openssl_request e) ?s6)"
      using dl x by (simp add: resolve_latest_eq)
    have "for_each (ssl_versions ref_name) (ssl_step e osn target cc) s
        = (Inl z, send v2 (openssl_request e) ?s6)"
      using ro rl
      by (simp add: ssl_versions_dev[OF dev] ssl_step_eq resolve_latest_pinned matrix_append_def
            ssl_entries_def)
    with l6 Inl show ?thesis by auto
  next
    case (Inr v3)
    let ?s7 = "(send v2 (openssl_request e) ?s6)\<lparr>openssl_cache := [(v2, v3), (?ko, v1)]\<rparr>"
    have "determine_latest_openssl e v2 ?s6 = (Inr v3, ?s7)"
      using openssl_miss[OF m6, of e] n6 Inr c6 by simp
    then have rl: "resolve_latest e ?kl ?s5 = (Inr v3, ?s7)"
      using dl x by (simp add: resolve_latest_eq)
    let ?s8 = "matrix_append (ssl_entry osn target cc ?kl v3) ?s7"
    have f: "for_each (ssl_versions ref_name) (ssl_step e osn target cc) s = (Inr (), ?s8)"
      using ro rl
      by (simp add: ssl_versions_dev[OF dev] ssl_step_eq resolve_latest_pinned matrix_append_def
            ssl_entries_def)
    have "network_log ?s8
        = [(?ko, openssl_request e), (?kl, libressl_request), (v2, openssl_request e)]"
      using c by (simp add: send_def matrix_append_def)
    moreover have "matrix ?s8 = matrix s @ ssl_entries osn target cc (ssl_versions ref_name)
               [''stock'', ''OPENSSL_VERSION=1.0.2u'', ''OPENSSL_VERSION=1.1.1s'', ''QUICTLS=yes'',
                v1, v3]"
      by (simp add: ssl_versions_dev[OF dev] ssl_entries_def send_def matrix_append_def)
    moreover have "openssl_cache ?s8 = [(v2, v3), (?ko, v1)]"
      "libressl_cache ?s8 = [(?kl, v2)]"
      by (simp_all add: send_def matrix_append_def)
    ultimately show ?thesis using f Inr by auto
  qed
qed

lemma dev_leg_log:
  assumes dev: "\<not> str_in ''haproxy-'' ref_name"
    and c: "openssl_cache s = []" "libressl_cache s = []" "network_log s = []"
    and f: "for_each (ssl_versions ref_name) (ssl_step e osn target cc) s = (res, s')"
  shows "network_log s' = [(''OPENSSL_VERSION=latest'', openssl_request e)]
     \<or> network_log s' = [(''OPENSSL_VERSION=latest'', openssl_request e),
                           (''LIBRESSL_VERSION=latest'', libressl_request)]
     \<or> (\<exists>v. libressl_from_outcome (nth_outcome (libressl_net e) 0) = Inr v \<and> wants_openssl v
            \<and> network_log s' = [(''OPENSSL_VERSION=latest'', openssl_request e),
                                  (''LIBRESSL_VERSION=latest'', libressl_request),
                                  (v, openssl_request e)])"
proof (cases "openssl_from_outcome (nth_outcome (openssl_net e) 0)")
  case (Inl x)
  from dev_first_leg_fails[OF dev c(1,3) Inl, of osn target cc] f c(3)
  show ?thesis by (auto simp: send_def)
next
  case o: (Inr v1)
  show ?thesis
  proof (cases "libressl_from_outcome (nth_outcome (libressl_net e) 0)")
    case (Inl y)
    from dev_first_leg_libressl_fails[OF dev c o Inl, of osn target cc] f
    show ?thesis by auto
  next
    case l: (Inr v2)
    show ?thesis
    proof (cases "wants_openssl v2")
      case False
      from dev_first_leg[OF dev c o l False, of osn target cc] f
      show ?thesis by auto
    next
      case True
      from dev_first_leg_second_request[OF dev c o l True, of osn target cc] f l True
      show ?thesis by auto
    qed
  qed
qed

lemma generate_log:
  assumes g: "generate e ref_name s = (res, s')"
    and j: "logged_cached s"
    and no: "length (openssl_cache s) \<le> 3" and nl: "length (libressl_cache s) \<le> 3"
  shows "network_log s' = network_log (snd
      (for_each (ssl_versions ref_name) (ssl_step e (linux_os ref_name) ''linux-glibc'' ''gcc'')
        ((print_stdout (banner ref_name) s)
           \<lparr>matrix := matrix s @ fixed_entries (linux_os ref_name) ''linux-glibc'' ''gcc''\<rparr>)))"
proof -
  let ?ms = "ssl_versions ref_name"
  let ?osn = "linux_os ref_name"
  let ?s1 = "(print_stdout (banner ref_name) s)\<lparr>matrix := matrix s @ fixed_entries ?osn ''linux-glibc'' ''gcc''\<rparr>"
  obtain r2 s2 where a: "for_each ?ms (ssl_step e ?osn ''linux-glibc'' ''gcc'') ?s1 = (r2, s2)"
    by (cases "for_each ?ms (ssl_step e ?osn ''linux-glibc'' ''gcc'') ?s1")
  have b1: "length (openssl_cache ?s1) + latest_count ?ms \<le> 5"
    "length (libressl_cache ?s1) + latest_count ?ms \<le> 5"
    using no nl latest_count_ssl_versions[of ref_name] by simp_all
  have j1: "logged_cached ?s1" using j by simp
  note gcc = leg_steps[OF a j1 b1]
  have "network_log s' = network_log s2"
  proof (cases r2)
    case (Inl x)
    with g a show ?thesis by (simp add: generate_def Let_def linux_step_eq)
  next
    case (Inr u)
    with gcc obtain rs where rs: "length rs = length ?ms"
      "\<forall>i < length ?ms. memo s2 (?ms ! i) (rs ! i)"
      by auto
    let ?s2 = "s2\<lparr>matrix := matrix s2 @ fixed_entries ?osn ''linux-glibc'' ''clang''\<rparr>"
    have "\<forall>i < length ?ms. memo ?s2 (?ms ! i) (rs ! i)" using rs(2) by simp
    from leg_memo[OF rs(1) this, of e ?osn "''linux-glibc''" "''clang''"]
    obtain s3 where s3:
      "for_each ?ms (ssl_step e ?osn ''linux-glibc'' ''clang'') ?s2 = (Inr (), s3)"
      "network_log s3 = network_log ?s2"
      by blast
    let ?s4 = "matrix_append (no_features (macos_os ref_name) ''osx'' ''clang'') s3"
    let ?s5 = "print_stdout (json_dumps (Some 4) True (matrix_json (matrix ?s4))) ?s4"
    have w: "write_github_output e ?s5 = (res, s')"
      using g a Inr s3(1) by (simp add: generate_def Let_def linux_step_eq macos_step_def)
    from write_github_output_caches[OF w] s3(2) show ?thesis by simp
  qed
  with a show ?thesis by simp
qed

lemma stable_leg_log:
  assumes st: "str_in ''haproxy-'' ref_name"
  shows "network_log (snd (for_each (ssl_versions ref_name) (ssl_step e osn target cc) s))
     = network_log s"
proof -
  have "\<forall>i < length (ssl_versions ref_name).
          memo s (ssl_versions ref_name ! i) (ssl_versions ref_name ! i)"
    using st by (simp add: ssl_versions_stable memo_pinned nth_Cons split: nat.splits)
  from leg_memo[OF refl this, of e osn target cc] show ?thesis by auto
qed

lemma run_log_shape:
  assumes r: "run e prog args = (code, fin)"
  shows "network_log fin = []
     \<or> network_log fin = [(''OPENSSL_VERSION=latest'', openssl_request e)]
     \<or> network_log fin = [(''OPENSSL_VERSION=latest'', openssl_request e),
                           (''LIBRESSL_VERSION=latest'', libressl_request)]
     \<or> (\<exists>v. libressl_from_outcome (nth_outcome (libressl_net e) 0) = Inr v \<and> wants_openssl v
            \<and> network_log fin = [(''OPENSSL_VERSION=latest'', openssl_request e),
                                   (''LIBRESSL_VERSION=latest'', libressl_request),
                                   (v, openssl_request e)])"
proof (cases "length args = 1")
  case False
  with r have "fin = print_stderr (''Usage: '' @ prog @ '' <ref_name>'') initial"
    by (auto simp: run_def main_def)
  then show ?thesis by (simp add: print_stderr_def initial_def)
next
  case True
  then obtain ref_name where a: "args = [ref_name]" by (cases args) auto
  obtain res where g: "generate e ref_name initial = (res, fin)"
    using r a by (cases "generate e ref_name initial") (simp add: run_def main_def)
  let ?s1 = "(print_stdout (banner ref_name) initial)
      \<lparr>matrix := matrix initial @ fixed_entries (linux_os ref_name) ''linux-glibc'' ''gcc''\<rparr>"
  let ?leg = "for_each (ssl_versions ref_name)
      (ssl_step e (linux_os ref_name) ''linux-glibc'' ''gcc'') ?s1"
  have lg: "network_log fin = network_log (snd ?leg)"
    using generate_log[OF g initial_caches(1,2,3)] by simp
  have c: "openssl_cache ?s1 = []" "libressl_cache ?s1 = []" "network_log ?s1 = []"
    by (simp_all add: initial_def)
  show ?thesis
  proof (cases "str_in ''haproxy-'' ref_name")
    case True
    from stable_leg_log[OF True, of e "linux_os ref_name" "''linux-glibc''" "''gcc''" ?s1] lg c(3)
    show ?thesis by simp
  next
    case False
    obtain r2 s2 where l: "?leg = (r2, s2)" by (cases ?leg)
    from dev_leg_log[OF False c l] lg l show ?thesis by auto
  qed
qed

lemma sent_to_log:
  "network_log s = [] \<Longrightarrow> sent_to u s = 0"
  "network_log s = [(m1, openssl_request e)] \<Longrightarrow>
     sent_to openssl_url s = 1 \<and> sent_to libressl_url s = 0"
  "network_log s = [(m1, openssl_request e), (m2, libressl_request)] \<Longrightarrow>
     sent_to openssl_url s = 1 \<and> sent_to libressl_url s = 1"
  "network_log s = [(m1, openssl_request e), (m2, libressl_request), (m3, openssl_request e)] \<Longrightarrow>
     sent_to openssl_url s = 2 \<and> sent_to libressl_url s = 1"
  using urls_differ
  by (auto simp: sent_to_def openssl_request_def libressl_request_def)

lemma dev_run_second_request:
  assumes dev: "\<not> str_in ''haproxy-'' ref_name"
    and o: "openssl_from_outcome (nth_outcome (openssl_net e) 0) = Inr v1"
    and l: "libressl_from_outcome (nth_outcome (libressl_net e) 0) = Inr v2"
    and x: "wants_openssl v2"
    and o2: "openssl_from_outcome (nth_outcome (openssl_net e) 1) = Inr v3"
    and w: "GITHUB_OUTPUT e = None \<or> output_writable e"
  shows "\<exists>fin. run e prog [ref_name] = (0, fin)
     \<and> network_log fin = [(''OPENSSL_VERSION=latest'', openssl_request e),
                            (''LIBRESSL_VERSION=latest'', libressl_request),
                            (v2, openssl_request e)]"
proof -
  let ?rs = "[''stock'', ''OPENSSL_VERSION=1.0.2u'', ''OPENSSL_VERSION=1.1.1s'', ''QUICTLS=yes'', v1, v3]"
  let ?osn = "linux_os ref_name"
  let ?s1 = "(print_stdout (banner ref_name) initial)
      \<lparr>matrix := matrix initial @ fixed_entries ?osn ''linux-glibc'' ''gcc''\<rparr>"
  have c: "openssl_cache ?s1 = []" "libressl_cache ?s1 = []" "network_log ?s1 = []"
    by (simp_all add: initial_def)
  from dev_first_leg_second_request[OF dev c o l x, of ?osn "''linux-glibc''" "''gcc''"] o2
  obtain s2 where s2:
    "for_each (ssl_versions ref_name) (ssl_step e ?osn ''linux-glibc'' ''gcc'') ?s1 = (Inr (), s2)"
    "network_log s2 = [(''OPENSSL_VERSION=latest'', openssl_request e),
                        (''LIBRESSL_VERSION=latest'', libressl_request),
                        (v2, openssl_request e)]"
    "openssl_cache s2 = [(v2, v3), (''OPENSSL_VERSION=latest'', v1)]"
    "libressl_cache s2 = [(''LIBRESSL_VERSION=latest'', v2)]"
    by auto
  have ne: "v2 \<noteq> ''OPENSSL_VERSION=latest''" using l by (rule libressl_result_not_marker)
  have len: "length ?rs = length (ssl_versions ref_name)"
    by (simp add: ssl_versions_dev[OF dev])
  have mo: "memo s2 ''OPENSSL_VERSION=latest'' v1"
    using s2(3) ne by (simp add: memo_def)
  have ml: "memo s2 ''LIBRESSL_VERSION=latest'' v3"
    unfolding memo_def using s2(3,4) x by (intro exI[of _ v2]) simp
  have m: "\<forall>i < length (ssl_versions ref_name). memo s2 (ssl_versions ref_name ! i) (?rs ! i)"
    using mo ml
    by (simp add: ssl_versions_dev[OF dev] nth_Cons memo_pinned split: nat.splits)
  from generate_after_gcc[OF s2(1) len m w] s2(2) show ?thesis
    by (auto simp: run_ok_iff)
qed

lemma run_sent_counts:
  assumes r: "run e prog args = (code, fin)"
  shows "sent_to libressl_url fin \<le> 1 \<and> sent_to openssl_url fin \<le> 2
     \<and> (\<not> (\<exists>v. libressl_from_outcome (nth_outcome (libressl_net e) 0) = Inr v
              \<and> wants_openssl v) \<longrightarrow> sent_to openssl_url fin \<le> 1)"
proof -
  let ?a = "(''OPENSSL_VERSION=latest'', openssl_request e)"
  let ?b = "(''LIBRESSL_VERSION=latest'', libressl_request)"
  from run_log_shape[OF r] consider
      (none) "network_log fin = []"
    | (one) "network_log fin = [?a]"
    | (two) "network_log fin = [?a, ?b]"
    | (three) v where "libressl_from_outcome (nth_outcome (libressl_net e) 0) = Inr v"
        "wants_openssl v" "network_log fin = [?a, ?b, (v, openssl_request e)]"
    by blast
  then show ?thesis
  proof cases
    case none
    from sent_to_log(1)[OF this, of libressl_url] sent_to_log(1)[OF this, of openssl_url]
    show ?thesis by simp
  next
    case one
    from sent_to_log(2)[OF this] show ?thesis by simp
  next
    case two
    from sent_to_log(3)[OF this] show ?thesis by simp
  next
    case three
    from sent_to_log(4)[OF three(3)] three(1,2) show ?thesis by auto
  qed
qed

section \<open>One request per lookup (C7)\<close>

text \<open>
  C7, as stated: each lookup category, "OpenSSL latest" and "LibreSSL latest", is
  resolved via the network at most once per run.  The step that follows the LibreSSL
  lookup tests the resolved string again; when the listing has the line
  \<open>libressl-OPENSSL-latest.tar.gz.asc\<close>, that string contains \<open>OPENSSL\<close> and \<open>latest\<close>, the
  OpenSSL resolver is called on it, and the run, which finishes with status 0, has sent
  two requests to the tags endpoint.
\<close>

theorem C7_counterexample:
  "fst (run \<lparr>GITHUB_TOKEN = None, GITHUB_OUTPUT = None, output_writable = True,
             openssl_net = [Response 200 (TagsJson (JArr [JObj [(''name'', JStr ''openssl-3.2.0'')]])),
                            Response 200 (TagsJson (JArr [JObj [(''name'', JStr ''openssl-3.2.0'')]]))],
             libressl_net = [Response 200 (ListingLines
                               [Some ''libressl-OPENSSL-latest.tar.gz.asc''])]\<rparr>
          ''matrix.py'' [''master'']) = 0
   \<and> sent_to openssl_url (snd
        (run \<lparr>GITHUB_TOKEN = None, GITHUB_OUTPUT = None, output_writable = True,
             openssl_net = [Response 200 (TagsJson (JArr [JObj [(''name'', JStr ''openssl-3.2.0'')]])),
                            Response 200 (TagsJson (JArr [JObj [(''name'', JStr ''openssl-3.2.0'')]]))],
             libressl_net = [Response 200 (ListingLines
                               [Some ''libressl-OPENSSL-latest.tar.gz.asc''])]\<rparr>
          ''matrix.py'' [''master''])) = 2"
proof -
  let ?e = "\<lparr>GITHUB_TOKEN = None, GITHUB_OUTPUT = None, output_writable = True,
             openssl_net = [Response 200 (TagsJson (JArr [JObj [(''name'', JStr ''openssl-3.2.0'')]])),
                            Response 200 (TagsJson (JArr [JObj [(''name'', JStr ''openssl-3.2.0'')]]))],
             libressl_net = [Response 200 (ListingLines
                               [Some ''libressl-OPENSSL-latest.tar.gz.asc''])]\<rparr>"
  have dev: "\<not> str_in ''haproxy-'' ''master''" by simp
  have o: "openssl_from_outcome (nth_outcome (openssl_net ?e) 0) = Inr ''OPENSSL_VERSION=3.2.0''"
    and o2: "openssl_from_outcome (nth_outcome (openssl_net ?e) 1) = Inr ''OPENSSL_VERSION=3.2.0''"
    by (simp_all add: nth_outcome_def openssl_from_outcome_def)
  have l: "libressl_from_outcome (nth_outcome (libressl_net ?e) 0)
      = Inr ''LIBRESSL_VERSION=OPENSSL-latest''"
    by (simp add: nth_outcome_def libressl_from_outcome_def re_split_def match_here_def
          alt_libressl_def alt_asc_def newline_def)
  have x: "wants_openssl ''LIBRESSL_VERSION=OPENSSL-latest''" by (simp add: wants_openssl_def)
  have w: "GITHUB_OUTPUT ?e = None \<or> output_writable ?e" by simp
  from dev_run_second_request[OF dev o l x o2 w, of "''matrix.py''"] obtain fin where fin:
    "run ?e ''matrix.py'' [''master''] = (0, fin)"
    "network_log fin = [(''OPENSSL_VERSION=latest'', openssl_request ?e),
                         (''LIBRESSL_VERSION=latest'', libressl_request),
                         (''LIBRESSL_VERSION=OPENSSL-latest'', openssl_request ?e)]"
    by blast
  from sent_to_log(4)[OF fin(2)] have "sent_to openssl_url fin = 2" by simp
  with fin(1) show ?thesis by simp
qed

text \<open>
  C7, amended: each resolver is resolved via the network at most once per marker: a
  resolver called again on a marker it has resolved returns the memoized result and
  leaves the state as it is (no request is sent, whatever the network would answer
  now), no run sends two requests to the same endpoint for the same marker, and in a
  run that finishes the gcc entries and the clang entries carry the same \<open>ssl\<close>
  strings.  Per run the LibreSSL category is resolved via the network at most once; so
  is the OpenSSL category unless the string resolved for LibreSSL itself contains
  both \<open>OPENSSL\<close> and \<open>latest\<close>, and then at most twice.
\<close>

theorem C7_resolved_once:
  "(determine_latest_openssl e k s = (Inr v, s1) \<longrightarrow>
      determine_latest_openssl e' k s1 = (Inr v, s1))
   \<and> (determine_latest_libressl e k s = (Inr v, s1) \<longrightarrow>
      determine_latest_libressl e' k s1 = (Inr v, s1))
   \<and> (run e prog args = (code, fin) \<longrightarrow>
        (\<forall>m u. length (filter (\<lambda>p. fst p = m \<and> url (snd p) = u) (network_log fin)) \<le> 1)
        \<and> sent_to libressl_url fin \<le> 1
        \<and> sent_to openssl_url fin \<le> 2
        \<and> ((\<forall>r. libressl_from_outcome (nth_outcome (libressl_net e) 0) = Inr r \<longrightarrow>
               \<not> (str_in ''OPENSSL'' r \<and> str_in ''latest'' r)) \<longrightarrow>
             sent_to openssl_url fin \<le> 1)
        \<and> (code = 0 \<longrightarrow>
             map ssl (leg_of ''gcc'' (matrix fin)) = map ssl (leg_of ''clang'' (matrix fin))))"
proof (intro conjI impI allI)
  assume "determine_latest_openssl e k s = (Inr v, s1)"
  then show "determine_latest_openssl e' k s1 = (Inr v, s1)" by (rule openssl_again)
next
  assume "determine_latest_libressl e k s = (Inr v, s1)"
  then show "determine_latest_libressl e' k s1 = (Inr v, s1)" by (rule libressl_again)
next
  fix m u
  assume "run e prog args = (code, fin)"
  then have "distinct (map (\<lambda>p. (fst p, url (snd p))) (network_log fin))"
    using run_log_distinct by (simp add: log_keys_def)
  from count_distinct[OF this, of "(m, u)"]
  show "length (filter (\<lambda>p. fst p = m \<and> url (snd p) = u) (network_log fin)) \<le> 1" by simp
next
  assume "run e prog args = (code, fin)"
  from run_sent_counts[OF this]
  show "sent_to libressl_url fin \<le> 1" by simp
next
  assume "run e prog args = (code, fin)"
  from run_sent_counts[OF this]
  show "sent_to openssl_url fin \<le> 2" by simp
next
  assume r: "run e prog args = (code, fin)"
    and h: "\<forall>r. libressl_from_outcome (nth_outcome (libressl_net e) 0) = Inr r \<longrightarrow>
               \<not> (str_in ''OPENSSL'' r \<and> str_in ''latest'' r)"
  from h have "\<not> (\<exists>v. libressl_from_outcome (nth_outcome (libressl_net e) 0) = Inr v
      \<and> wants_openssl v)"
    by (auto simp: wants_openssl_def)
  with run_sent_counts[OF r]
  show "sent_to openssl_url fin \<le> 1" by blast
next
  assume r: "run e prog args = (code, fin)" and c: "code = 0"
  have "length args = 1"
  proof (rule ccontr)
    assume "length args \<noteq> 1"
    with r c show False by (auto simp: run_def main_def exit_status_def)
  qed
  then obtain ref_name where a: "args = [ref_name]" by (cases args) auto
  from run_result[of e prog ref_name fin] r c a obtain rs where rs:
    "length rs = length (ssl_versions ref_name)"
    "matrix fin = linux_leg (linux_os ref_name) ''gcc'' (ssl_versions ref_name) rs
          @ linux_leg (linux_os ref_name) ''clang'' (ssl_versions ref_name) rs
          @ [no_features (macos_os ref_name) ''osx'' ''clang'']"
    by auto
  have "leg_of ''gcc'' (matrix fin) = linux_leg (linux_os ref_name) ''gcc'' (ssl_versions ref_name) rs"
    "leg_of ''clang'' (matrix fin) = linux_leg (linux_os ref_name) ''clang'' (ssl_versions ref_name) rs"
    using rs(2) leg_of_matrix[of "''gcc''"] leg_of_matrix[of "''clang''"] by simp_all
  then show "map ssl (leg_of ''gcc'' (matrix fin)) = map ssl (leg_of ''clang'' (matrix fin))"
    using map_ssl_linux_leg[OF rs(1)] by simp
qed

theorem C7_resolved_once_witness:
  "determine_latest_openssl demo_env ''OPENSSL_VERSION=latest'' initial
     = (Inr ''OPENSSL_VERSION=3.2.0'',
        snd (determine_latest_openssl demo_env ''OPENSSL_VERSION=latest'' initial))
   \<and> determine_latest_openssl offline_env ''OPENSSL_VERSION=latest''
        (snd (determine_latest_openssl demo_env ''OPENSSL_VERSION=latest'' initial))
     = (Inr ''OPENSSL_VERSION=3.2.0'',
        snd (determine_latest_openssl demo_env ''OPENSSL_VERSION=latest'' initial))
   \<and> run demo_env ''matrix.py'' [''master''] = (0, snd (run demo_env ''matrix.py'' [''master'']))
   \<and> libressl_from_outcome (nth_outcome (libressl_net demo_env) 0) = Inr ''LIBRESSL_VERSION=3.8.2''
   \<and> \<not> str_in ''OPENSSL'' ''LIBRESSL_VERSION=3.8.2''
   \<and> sent_to openssl_url (snd (run demo_env ''matrix.py'' [''master''])) \<le> 1
   \<and> sent_to libressl_url (snd (run demo_env ''matrix.py'' [''master''])) \<le> 1
   \<and> map ssl (leg_of ''gcc'' (matrix (snd (run demo_env ''matrix.py'' [''master'']))))
     = map ssl (leg_of ''clang'' (matrix (snd (run demo_env ''matrix.py'' [''master'']))))"
proof -
  note a = C7_resolved_once[where e = demo_env and k = "''OPENSSL_VERSION=latest''"
      and s = initial and v = "''OPENSSL_VERSION=3.2.0''"
      and ?s1.0 = "snd (determine_latest_openssl demo_env ''OPENSSL_VERSION=latest'' initial)"
      and e' = offline_env and prog = "''matrix.py''" and args = "[''master'']" and code = 0
      and fin = "snd (run demo_env ''matrix.py'' [''master''])"]
  have n: "\<not> str_in ''OPENSSL'' ''LIBRESSL_VERSION=3.8.2''" by simp
  have h: "\<forall>r. libressl_from_outcome (nth_outcome (libressl_net demo_env) 0) = Inr r \<longrightarrow>
               \<not> (str_in ''OPENSSL'' r \<and> str_in ''latest'' r)"
    using demo_libressl n by auto
  note b = a[THEN conjunct2, THEN conjunct2, rule_format, OF demo_run_ok]
  from a[THEN conjunct1, rule_format, OF demo_resolve_openssl] b h
    demo_resolve_openssl demo_run_ok demo_libressl n
  show ?thesis by simp
qed

end
